theory Spec2Isabelle
  imports Complex_Main "HOL-Library.Product_Lexorder"
begin

section \<open>Python and numpy primitives used by the evaluation harness\<close>

text \<open>
  The harness of \<^verbatim>\<open>moda/evaluators/eval.py\<close> is written against pandas frames with a
  two-level index (time, category).  This theory embeds the functions of that file;
  the library calls they make (index slicing, \<^verbatim>\<open>.loc\<close>, \<^verbatim>\<open>pd.merge\<close>,
  \<^verbatim>\<open>TimeSeriesSplit\<close>) are embedded next to them, each with the behaviour it stands for.

  Exceptions are values: a function that can raise returns \<open>error + 'a\<close>.
\<close>

datatype error = TypeError | KeyError | ValueError | ModelError

text \<open>
  \<^verbatim>\<open>int(a / b)\<close> for integers \<open>a\<close> and a positive integer \<open>b\<close>: true division, then
  truncation towards zero.  The quotient is computed in double precision by Python; it
  is correctly rounded, so its truncation is the truncation of the exact quotient as
  long as \<open>|a| < 2^53\<close>, which index lengths times a percentage are.
\<close>

definition int_of_quotient :: "int \<Rightarrow> int \<Rightarrow> int" where
  "int_of_quotient a b = (if 0 \<le> a then a div b else - ((- a) div b))"

text \<open>
  A slice bound \<open>k\<close> on a sequence of length \<open>n\<close>: a negative bound counts from the end,
  and every bound is clamped to \<open>0..n\<close>.  \<^verbatim>\<open>xs[:k]\<close> and \<^verbatim>\<open>xs[k:]\<close> never raise.
\<close>

definition slice_bound :: "nat \<Rightarrow> int \<Rightarrow> nat" where
  "slice_bound n k = (if k < 0 then nat (int n + k) else min n (nat k))"

definition slice_to :: "int \<Rightarrow> 'a list \<Rightarrow> 'a list" where
  "slice_to k xs = take (slice_bound (length xs) k) xs"

definition slice_from :: "int \<Rightarrow> 'a list \<Rightarrow> 'a list" where
  "slice_from k xs = drop (slice_bound (length xs) k) xs"

section \<open>Frames with a (time, category) index\<close>

text \<open>
  The docstrings of \<^verbatim>\<open>eval_models\<close> and \<^verbatim>\<open>eval_models_CV\<close> fix the shape of the data: a
  pandas DataFrame with a two-level index, the first level indexing time and the second
  the category, and data columns.  A frame is embedded with
  \<^item> the names of its two index levels;
  \<^item> the values of each level (\<^verbatim>\<open>index.levels[0]\<close>, \<^verbatim>\<open>index.levels[1]\<close>): pandas keeps
    them apart from the rows, and a level value may be unused (no row carries it);
  \<^item> the names of its data columns, in order;
  \<^item> its rows in order, each a key (time, category) and one cell per column.
  A cell is a number or NaN (\<open>None\<close>).  Data columns named like the merge keys
  (\<^verbatim>\<open>date\<close>, \<^verbatim>\<open>category\<close>) are outside this embedding: pandas would then resolve a key
  to the column.
\<close>

type_synonym key = "nat \<times> nat"

type_synonym cell = "int option"

record frame =
  index_names :: "string list"
  levels0 :: "nat list"
  levels1 :: "nat list"
  columns :: "string list"
  rows :: "(key \<times> cell list) list"

text \<open>\<^verbatim>\<open>index.remove_unused_levels()\<close>: the levels become the sorted values in use.\<close>

definition remove_unused_levels :: "frame \<Rightarrow> frame" where
  "remove_unused_levels f =
     f\<lparr>levels0 := sort (remdups (map (\<lambda>r. fst (fst r)) (rows f))),
       levels1 := sort (remdups (map (\<lambda>r. snd (fst r)) (rows f)))\<rparr>"

text \<open>
  \<^verbatim>\<open>df.loc[dates]\<close> with a list of level-0 labels.  pandas looks every requested
  label up among the rows and raises \<^verbatim>\<open>KeyError\<close> when one of them has no row, be it a
  value of level 0 that no row carries or no value of the level at all.  Otherwise the
  result holds, for each requested label in turn, the rows with that time in their order;
  the levels are kept by the selection.  An empty list of labels selects no row and does
  not raise.
\<close>

definition rows_at :: "frame \<Rightarrow> nat \<Rightarrow> (key \<times> cell list) list" where
  "rows_at f d = filter (\<lambda>r. fst (fst r) = d) (rows f)"

definition loc_dates :: "frame \<Rightarrow> nat list \<Rightarrow> error + frame" where
  "loc_dates f dates =
     (if list_ex (\<lambda>d. rows_at f d = []) dates then Inl KeyError
      else Inr (f\<lparr>rows := concat (map (rows_at f) dates)\<rparr>))"

text \<open>
  \<^verbatim>\<open>df[name]\<close>: the cells of the data column \<open>name\<close>, \<^verbatim>\<open>KeyError\<close> when no column has
  that name.  Column names of a frame are taken to be distinct (the first is read).
\<close>

fun index_of :: "'a \<Rightarrow> 'a list \<Rightarrow> nat" where
  "index_of x [] = 0"
| "index_of x (y # ys) = (if x = y then 0 else Suc (index_of x ys))"

definition cell_at :: "frame \<Rightarrow> string \<Rightarrow> cell list \<Rightarrow> cell" where
  "cell_at f name cs = cs ! index_of name (columns f)"

definition column :: "frame \<Rightarrow> string \<Rightarrow> error + cell list" where
  "column f name =
     (if name \<in> set (columns f) then Inr (map (\<lambda>r. cell_at f name (snd r)) (rows f))
      else Inl KeyError)"

text \<open>
  \<^verbatim>\<open>df[[n1, n2]]\<close>: the frame restricted to the listed columns, in the listed order;
  \<^verbatim>\<open>KeyError\<close> when one of them is not a column.  The index is kept.
\<close>

definition select_columns :: "frame \<Rightarrow> string list \<Rightarrow> error + frame" where
  "select_columns f ns =
     (if list_ex (\<lambda>n. n \<notin> set (columns f)) ns then Inl KeyError
      else Inr (f\<lparr>columns := ns,
                  rows := map (\<lambda>r. (fst r, map (\<lambda>n. cell_at f n (snd r)) ns)) (rows f)\<rparr>))"

text \<open>
  \<^verbatim>\<open>df[name] = df[name].fillna(0)\<close>: NaN cells of column \<open>name\<close> become 0;
  \<^verbatim>\<open>KeyError\<close> when the column does not exist.
\<close>

definition fillna0 :: "cell \<Rightarrow> cell" where
  "fillna0 c = (case c of None \<Rightarrow> Some 0 | Some v \<Rightarrow> Some v)"

definition fillna_column :: "frame \<Rightarrow> string \<Rightarrow> error + frame" where
  "fillna_column f name =
     (if name \<in> set (columns f)
      then Inr (f\<lparr>rows := map (\<lambda>r. (fst r,
                    (snd r)[index_of name (columns f) := fillna0 (cell_at f name (snd r))]))
                  (rows f)\<rparr>)
      else Inl KeyError)"

text \<open>
  \<^verbatim>\<open>df.sort_index(level=['date', 'category'], ascending=True, inplace=True)\<close> on a
  frame whose index levels are \<^verbatim>\<open>date\<close> and \<^verbatim>\<open>category\<close> in this order: the rows are
  sorted by key, time first.  Keys are compared lexicographically.
\<close>

definition sort_index :: "frame \<Rightarrow> frame" where
  "sort_index f = f\<lparr>rows := sort_key fst (rows f)\<rparr>"

section \<open>Merging on the index levels date and category\<close>

text \<open>
  \<^verbatim>\<open>pd.merge(left, right, how='left', on=['date', 'category'])\<close>.  Each key name is
  looked up among the index level names of a frame: \<^verbatim>\<open>KeyError\<close> when the frame has
  no level of that name, \<^verbatim>\<open>ValueError\<close> when the name occurs more than once,
  otherwise the position of the level.  pandas takes the key names in the order given
  and, for each name, reads the right frame and then the left one.  The key of a row
  is read by name, so a frame whose levels are named in the other order is merged on
  the swapped pair.  Every row of \<open>left\<close> is kept, in order; it is paired with each row
  of \<open>right\<close> of the same key, or with NaN cells when there is none.  Column names common
  to both frames get the suffixes \<^verbatim>\<open>_x\<close> and \<^verbatim>\<open>_y\<close>.  The result is indexed by
  (date, category), with levels rebuilt from the keys in use.
\<close>

definition level_number :: "frame \<Rightarrow> string \<Rightarrow> error + nat" where
  "level_number f name =
     (if name \<notin> set (index_names f) then Inl KeyError
      else if 1 < count_list (index_names f) name then Inl ValueError
      else Inr (index_of name (index_names f)))"

text \<open>The value a key has at the level of a given position (a frame has two levels).\<close>

definition key_part :: "nat \<Rightarrow> key \<Rightarrow> nat" where
  "key_part i k = (if i = 0 then fst k else snd k)"

text \<open>
  Both key names looked up in one frame: the function that reads the (date, category)
  key of a row of that frame.
\<close>

definition resolve_keys :: "frame \<Rightarrow> error + (key \<Rightarrow> key)" where
  "resolve_keys f =
     (case level_number f ''date'' of
        Inl e \<Rightarrow> Inl e
      | Inr d \<Rightarrow>
         (case level_number f ''category'' of
            Inl e \<Rightarrow> Inl e
          | Inr c \<Rightarrow> Inr (\<lambda>k. (key_part d k, key_part c k))))"

definition suffixed :: "string list \<Rightarrow> string \<Rightarrow> string list \<Rightarrow> string list" where
  "suffixed cs sfx others = map (\<lambda>c. if c \<in> set others then c @ sfx else c) cs"

definition merge_row :: "(key \<times> cell list) list \<Rightarrow> nat \<Rightarrow> key \<times> cell list \<Rightarrow> (key \<times> cell list) list" where
  "merge_row rrows width l =
     (case filter (\<lambda>r. fst r = fst l) rrows of
        [] \<Rightarrow> [(fst l, snd l @ replicate width None)]
      | ms \<Rightarrow> map (\<lambda>r. (fst l, snd l @ snd r)) ms)"

definition merge_left :: "frame \<Rightarrow> frame \<Rightarrow> error + frame" where
  "merge_left left right =
     (case level_number right ''date'' of
        Inl e \<Rightarrow> Inl e
      | Inr rd \<Rightarrow>
         (case level_number left ''date'' of
            Inl e \<Rightarrow> Inl e
          | Inr ld \<Rightarrow>
             (case resolve_keys right of
                Inl e \<Rightarrow> Inl e
              | Inr kr \<Rightarrow>
                 (case resolve_keys left of
                    Inl e \<Rightarrow> Inl e
                  | Inr kl \<Rightarrow>
                      Inr (remove_unused_levels
                        \<lparr>index_names = [''date'', ''category''],
                         levels0 = [], levels1 = [],
                         columns = suffixed (columns left) ''_x'' (columns right)
                                   @ suffixed (columns right) ''_y'' (columns left),
                         rows = concat (map (merge_row (map (\<lambda>r. (kr (fst r), snd r)) (rows right))
                                           (length (columns right)))
                                         (map (\<lambda>r. (kl (fst r), snd r)) (rows left)))\<rparr>)))))"

section \<open>Joining predictions, labels and values\<close>

text \<open>
  \<^verbatim>\<open>_join_pred_to_dataset\<close>, lines 239 to 244.  The prediction column is selected
  under the fixed name \<^verbatim>\<open>prediction\<close>; \<open>value_col_name\<close> is received and not used.
\<close>

definition join_pred_to_dataset :: "frame \<Rightarrow> frame \<Rightarrow> frame \<Rightarrow> string \<Rightarrow> string \<Rightarrow> error + frame" where
  "join_pred_to_dataset original_df prediction_df test_values_df label_col_name value_col_name =
     (case merge_left prediction_df original_df of
        Inl e \<Rightarrow> Inl e
      | Inr m1 \<Rightarrow>
         (case select_columns m1 [''prediction'', label_col_name] of
            Inl e \<Rightarrow> Inl e
          | Inr results1 \<Rightarrow>
             (case merge_left results1 test_values_df of
                Inl e \<Rightarrow> Inl e
              | Inr results2 \<Rightarrow>
                 (case fillna_column results2 label_col_name of
                    Inl e \<Rightarrow> Inl e
                  | Inr results3 \<Rightarrow> Inr (sort_index results3)))))"

section \<open>The metrics module\<close>

text \<open>
  \<^verbatim>\<open>eval.py\<close> imports \<^verbatim>\<open>_initialize_metrics\<close>, \<^verbatim>\<open>get_metrics_with_shift\<close> and
  \<^verbatim>\<open>get_final_metrics\<close> from \<^verbatim>\<open>moda/evaluators/metrics/metrics.py\<close>, which is not among
  the sources.  The accumulator is a dictionary from category to the counts named in the
  docstring of \<^verbatim>\<open>get_evaluation_metrics\<close>.
\<close>

record category_metrics =
  TP :: nat
  FP :: nat
  FN :: nat
  num_samples :: nat
  num_values :: int

type_synonym metrics = "nat \<rightharpoonup> category_metrics"

text \<open>
  Modelled from the spec: the zeroed entry of \<^verbatim>\<open>_initialize_metrics\<close> (metrics.py,
  missing).  Section 4.4: \<^verbatim>\<open>initialize(categories) -> {category: zeroed CategoryMetrics}\<close>.
\<close>

definition zero_metrics :: category_metrics where
  "zero_metrics = \<lparr>TP = 0, FP = 0, FN = 0, num_samples = 0, num_values = 0\<rparr>"

text \<open>
  Modelled from the spec: \<^verbatim>\<open>_initialize_metrics\<close> (metrics.py, missing).  Every given
  category gets a zeroed entry; nothing else is a key.
\<close>

definition initialize_metrics :: "nat list \<Rightarrow> metrics" where
  "initialize_metrics categories = (\<lambda>c. if c \<in> set categories then Some zero_metrics else None)"

text \<open>
  Modelled from the spec: the matcher behind \<^verbatim>\<open>get_metrics_with_shift\<close> (metrics.py,
  missing).  Section 4.3: an event is a nonzero flag; \<open>P\<close> and \<open>A\<close> are the ascending
  positions of the predicted and of the actual events; an actual and a predicted event
  may be paired when their positions differ by at most \<open>window_size\<close>.  For each actual
  event in ascending order the unconsumed predicted events within the window are
  searched; the closest is chosen, the leftmost on a tie; it is consumed and counts one
  TP.  An actual event without candidate counts one FN.  Every predicted event left
  unconsumed at the end counts one FP.
\<close>

definition is_event :: "cell \<Rightarrow> bool" where
  "is_event c = (c \<noteq> Some 0)"

text \<open>
  Modelled from the spec: the lists \<open>P\<close> and \<open>A\<close> of section 4.3 (metrics.py, missing),
  the positions of the events of a sequence in ascending order.
\<close>

definition event_positions :: "cell list \<Rightarrow> nat list" where
  "event_positions xs = filter (\<lambda>i. is_event (xs ! i)) [0..<length xs]"

text \<open>
  Modelled from the spec: \<open>|index(A) - index(P)|\<close> of section 4.3 (metrics.py, missing).
\<close>

definition distance :: "nat \<Rightarrow> nat \<Rightarrow> nat" where
  "distance a p = (if a \<le> p then p - a else a - p)"

text \<open>
  Modelled from the spec: the pairing condition \<open>|index(A) - index(P)| \<le> window_size\<close>
  of section 4.3 (metrics.py, missing).
\<close>

definition in_window :: "nat \<Rightarrow> nat \<Rightarrow> nat \<Rightarrow> bool" where
  "in_window w a p = (distance a p \<le> w)"

text \<open>
  Modelled from the spec: step 2 of the algorithm of section 4.3 (metrics.py, missing).
  Among the candidates, in ascending order, the one with the smallest distance to \<open>a\<close>,
  the earliest on a tie.
\<close>

fun closest :: "nat \<Rightarrow> nat list \<Rightarrow> nat option" where
  "closest a [] = None"
| "closest a (p # ps) =
     (case closest a ps of
        None \<Rightarrow> Some p
      | Some q \<Rightarrow> if distance a p \<le> distance a q then Some p else Some q)"

text \<open>
  Modelled from the spec: steps 1 and 3 to 5 of the algorithm of section 4.3 (metrics.py,
  missing).  The actual events are taken in ascending order, \<open>ps\<close> holds the predicted
  events not yet consumed; the result is the number of TP, the number of FN and the
  predicted events left unconsumed.
\<close>

fun match_events :: "nat \<Rightarrow> nat list \<Rightarrow> nat list \<Rightarrow> nat \<times> nat \<times> nat list" where
  "match_events w [] ps = (0, 0, ps)"
| "match_events w (a # as) ps =
     (case closest a (filter (in_window w a) ps) of
        None \<Rightarrow> (case match_events w as ps of (tp, fn, rest) \<Rightarrow> (tp, Suc fn, rest))
      | Some p \<Rightarrow> (case match_events w as (remove1 p ps) of (tp, fn, rest) \<Rightarrow> (Suc tp, fn, rest)))"

text \<open>
  Modelled from the spec: the counts (TP, FP, FN) the matcher of section 4.3 gives for one
  aligned pair of sequences (metrics.py, missing); every unconsumed predicted event is
  one FP.
\<close>

definition shift_counts :: "nat \<Rightarrow> cell list \<Rightarrow> cell list \<Rightarrow> nat \<times> nat \<times> nat" where
  "shift_counts w predicted actual =
     (case match_events w (event_positions actual) (event_positions predicted) of
        (tp, fn, rest) \<Rightarrow> (tp, length rest, fn))"

text \<open>
  Modelled from the spec: \<^verbatim>\<open>get_metrics_with_shift\<close> (metrics.py, missing).  Section 4.3,
  Output: the increments are added to the category's entry of the accumulator.  Reading
  the entry of a category the dictionary does not hold is Python's \<^verbatim>\<open>KeyError\<close>.
\<close>

definition get_metrics_with_shift :: "cell list \<Rightarrow> cell list \<Rightarrow> nat \<Rightarrow> metrics \<Rightarrow> nat \<Rightarrow> error + metrics" where
  "get_metrics_with_shift predicted actual category metrics window_size =
     (case metrics category of
        None \<Rightarrow> Inl KeyError
      | Some m \<Rightarrow>
         (case shift_counts window_size predicted actual of
            (tp, fp, fn) \<Rightarrow>
              Inr (metrics(category \<mapsto> m\<lparr>TP := TP m + tp, FP := FP m + fp, FN := FN m + fn\<rparr>))))"

text \<open>
  Modelled from the spec: the record \<^verbatim>\<open>get_final_metrics\<close> (metrics.py, missing) returns
  per category.  Section 4.4: precision \<open>TP / (TP + FP)\<close>, recall \<open>TP / (TP + FN)\<close>,
  \<open>f1 = 2 p r / (p + r)\<close> and \<open>f0.5 = 1.25 p r / (0.25 p + r)\<close>, each 0 when its
  denominator is 0, and the two supports carried through.  The quotients are exact
  rationals here.
\<close>

record final_metrics =
  precision :: rat
  recall :: rat
  f1 :: rat
  f0_5 :: rat
  support_samples :: nat
  support_values :: int

text \<open>
  Modelled from the spec: the zero-denominator policy of section 4.4 (metrics.py,
  missing): a quotient is 0 when its denominator is 0.
\<close>

definition ratio :: "rat \<Rightarrow> rat \<Rightarrow> rat" where
  "ratio a b = (if b = 0 then 0 else a / b)"

text \<open>
  Modelled from the spec: the FinalMetrics of one category, section 4.4 (metrics.py,
  missing).
\<close>

definition finalize :: "category_metrics \<Rightarrow> final_metrics" where
  "finalize m =
     (let p = ratio (of_nat (TP m)) (of_nat (TP m + FP m));
          r = ratio (of_nat (TP m)) (of_nat (TP m + FN m))
      in \<lparr>precision = p, recall = r,
          f1 = ratio (2 * p * r) (p + r),
          f0_5 = ratio (5 / 4 * p * r) (1 / 4 * p + r),
          support_samples = num_samples m, support_values = num_values m\<rparr>)"

text \<open>
  Modelled from the spec: \<^verbatim>\<open>get_final_metrics\<close> (metrics.py, missing), section 4.4:
  \<^verbatim>\<open>finalize(metrics) -> {category: FinalMetrics}\<close>.  The aggregate row the spec
  mentions has no stated rule and is not modelled.
\<close>

definition get_final_metrics :: "metrics \<Rightarrow> (nat \<rightharpoonup> final_metrics)" where
  "get_final_metrics metrics = (\<lambda>c. map_option finalize (metrics c))"

section \<open>Scoring one test set\<close>

text \<open>
  Arithmetic on 64-bit integers wraps around: the value is taken modulo \<open>2^64\<close> into
  the range from \<open>- 2^63\<close> to \<open>2^63 - 1\<close>.
\<close>

definition wrap_int64 :: "int \<Rightarrow> int" where
  "wrap_int64 v = (v + 9223372036854775808) mod 18446744073709551616 - 9223372036854775808"

text \<open>
  \<^verbatim>\<open>np.sum\<close> of a column: pandas sums the cells that are not NaN.  A column of
  integers without NaN is an \<^verbatim>\<open>int64\<close> column, and its sum wraps around.  A column with
  a NaN cell is a column of floats; floats are not embedded, and its sum is given as the
  exact sum, which the float sum is as long as the numbers stay below \<open>2^53\<close> in absolute
  value.
\<close>

definition sum_cells :: "cell list \<Rightarrow> int" where
  "sum_cells cs =
     (if list_all (\<lambda>c. c \<noteq> None) cs
      then wrap_int64 (sum_list (map (\<lambda>c. case c of None \<Rightarrow> 0 | Some v \<Rightarrow> v) cs))
      else sum_list (map (\<lambda>c. case c of None \<Rightarrow> 0 | Some v \<Rightarrow> v) cs))"

text \<open>
  \<^verbatim>\<open>num_values += np.sum(column)\<close> (line 235): adding an \<^verbatim>\<open>int64\<close> sum gives an
  \<^verbatim>\<open>int64\<close>, which wraps around; adding the sum of a column of floats gives a float,
  here the exact sum.
\<close>

definition add_values :: "int \<Rightarrow> cell list \<Rightarrow> int" where
  "add_values acc cs =
     (if list_all (\<lambda>c. c \<noteq> None) cs then wrap_int64 (acc + sum_cells cs)
      else acc + sum_cells cs)"

text \<open>
  \<^verbatim>\<open>dataset.loc[pd.IndexSlice[:, category], :]\<close> (line 225) selects the rows of the
  category and raises \<^verbatim>\<open>KeyError\<close> for a category that no row carries.
\<close>

definition loc_category :: "frame \<Rightarrow> nat \<Rightarrow> error + frame" where
  "loc_category f category =
     (if list_ex (\<lambda>r. snd (fst r) = category) (rows f)
      then Inr (f\<lparr>rows := filter (\<lambda>r. snd (fst r) = category) (rows f)\<rparr>)
      else Inl KeyError)"

text \<open>
  \<^verbatim>\<open>get_metrics_for_one_category\<close>, lines 225 to 236.  An exception leaves the function
  before it returns, so the accumulator is returned only when every step succeeded.
\<close>

definition get_metrics_for_one_category ::
  "frame \<Rightarrow> string \<Rightarrow> string \<Rightarrow> string \<Rightarrow> nat \<Rightarrow> nat \<Rightarrow> metrics \<Rightarrow> error + metrics" where
  "get_metrics_for_one_category dataset label_col_name prediction_col_name value_col_name
       window_size_for_metrics category metrics =
     (case loc_category dataset category of
        Inl e \<Rightarrow> Inl e
      | Inr sliced \<Rightarrow>
         (let category_results = remove_unused_levels sliced in
          case column category_results prediction_col_name of
            Inl e \<Rightarrow> Inl e
          | Inr predicted \<Rightarrow>
             (case column category_results label_col_name of
                Inl e \<Rightarrow> Inl e
              | Inr actual \<Rightarrow>
                 (case get_metrics_with_shift predicted actual category metrics
                         window_size_for_metrics of
                    Inl e \<Rightarrow> Inl e
                  | Inr metrics1 \<Rightarrow>
                     (case metrics1 category of
                        None \<Rightarrow> Inl KeyError
                      | Some m1 \<Rightarrow>
                         (let m2 = m1\<lparr>num_samples :=
                                        num_samples m1 + length (rows category_results)\<rparr>
                          in case column category_results value_col_name of
                               Inl e \<Rightarrow> Inl e
                             | Inr vs \<Rightarrow>
                                 Inr (metrics1(category \<mapsto>
                                        m2\<lparr>num_values := add_values (num_values m2) vs\<rparr>))))))))"

text \<open>
  The loop of \<^verbatim>\<open>get_evaluation_metrics\<close>, lines 201 to 203, over the categories
  \<^verbatim>\<open>results.index.levels[1]\<close>.
\<close>

fun accumulate_categories ::
  "frame \<Rightarrow> string \<Rightarrow> string \<Rightarrow> string \<Rightarrow> nat \<Rightarrow> nat list \<Rightarrow> metrics \<Rightarrow> error + metrics" where
  "accumulate_categories results lc pc vc w [] metrics = Inr metrics"
| "accumulate_categories results lc pc vc w (category # cs) metrics =
     (case get_metrics_for_one_category results lc pc vc w category metrics of
        Inl e \<Rightarrow> Inl e
      | Inr metrics' \<Rightarrow> accumulate_categories results lc pc vc w cs metrics')"

text \<open>
  \<^verbatim>\<open>get_evaluation_metrics\<close>, lines 193 to 205.  With \<^verbatim>\<open>metrics=None\<close> the accumulator
  starts as the empty dictionary (the result of \<^verbatim>\<open>_initialize_metrics\<close> is dropped on
  line 196).
\<close>

definition get_evaluation_metrics ::
  "frame \<Rightarrow> frame \<Rightarrow> frame \<Rightarrow> metrics option \<Rightarrow> string \<Rightarrow> string \<Rightarrow> string \<Rightarrow> nat
     \<Rightarrow> error + metrics" where
  "get_evaluation_metrics test_values_df prediction_df labels_df metrics_arg value_col_name
       label_col_name prediction_col_name window_size_for_metrics =
     (let metrics = (case metrics_arg of None \<Rightarrow> Map.empty | Some m \<Rightarrow> m) in
      case join_pred_to_dataset labels_df prediction_df test_values_df label_col_name
             value_col_name of
        Inl e \<Rightarrow> Inl e
      | Inr results \<Rightarrow>
          accumulate_categories results label_col_name prediction_col_name value_col_name
            window_size_for_metrics (levels1 results) metrics)"

section \<open>Objects, models and console output\<close>

text \<open>
  Frames are objects: two names can refer to the same frame, and a model is handed
  references.  The store \<open>heap\<close> holds the frames, a reference is a position in it, and
  a new object is appended.  \<open>log\<close> records, in order, what the harness prints and which
  model methods it calls.  A message names the \<^verbatim>\<open>print\<close> statement that ran, with the
  numbers it formats; the text printed for a model or a report is not modelled.
\<close>

datatype message =
    Running_splits int
  | Warning_n_splits int
  | Model_banner string
  | Iteration_banner nat nat nat nat
  | Fitting
  | Predicting
  | Final_report

datatype event = Printed message | Fit_called string | Predict_called string

record world =
  heap :: "frame list"
  log :: "event list"

definition say :: "message \<Rightarrow> world \<Rightarrow> world" where
  "say m w = w\<lparr>log := log w @ [Printed m]\<rparr>"

definition called :: "event \<Rightarrow> world \<Rightarrow> world" where
  "called e w = w\<lparr>log := log w @ [e]\<rparr>"

definition alloc :: "frame \<Rightarrow> world \<Rightarrow> nat \<times> world" where
  "alloc f w = (length (heap w), w\<lparr>heap := heap w @ [f]\<rparr>)"

definition store :: "nat \<Rightarrow> frame \<Rightarrow> world \<Rightarrow> world" where
  "store a f w = w\<lparr>heap := (heap w)[a := f]\<rparr>"

text \<open>
  A model is an opaque object with the scikit-learn contract.  \<^verbatim>\<open>fit(X, y)\<close> and
  \<^verbatim>\<open>predict(X)\<close> may change the model's own state, may raise, and may change the frames
  they are handed: each returns the new content of its arguments, which the harness
  writes back to the objects it passed.  \<^verbatim>\<open>predict\<close> also returns the prediction frame.
\<close>

record 'm model =
  model_name :: string
  model_str :: string
  state :: 'm
  fit :: "'m \<Rightarrow> frame \<Rightarrow> frame \<Rightarrow> error + ('m \<times> frame \<times> frame)"
  predict :: "'m \<Rightarrow> frame \<Rightarrow> error + ('m \<times> frame \<times> frame)"

record config =
  label_col :: string
  prediction_col :: string
  value_col :: string
  verbose :: bool
  window_size :: nat

text \<open>
  \<^verbatim>\<open>_prep_set\<close>, lines 169 to 172: \<^verbatim>\<open>X.copy()\<close> makes a new object, \<^verbatim>\<open>.loc[dates]\<close>
  another one, whose index is then replaced.
\<close>

definition prep_set :: "nat \<Rightarrow> nat list \<Rightarrow> world \<Rightarrow> (error + nat) \<times> world" where
  "prep_set X dates w =
     (case alloc (heap w ! X) w of
        (copy, w1) \<Rightarrow>
          (case loc_dates (heap w1 ! copy) dates of
             Inl e \<Rightarrow> (Inl e, w1)
           | Inr selected \<Rightarrow>
               (case alloc selected w1 of
                  (new_samples, w2) \<Rightarrow>
                    (Inr new_samples,
                     store new_samples (remove_unused_levels (heap w2 ! new_samples)) w2))))"

text \<open>
  The guarded block that runs a model on one split: lines 64 to 77 of \<^verbatim>\<open>eval_models\<close>
  and lines 149 to 160 of \<^verbatim>\<open>eval_models_CV\<close>.  The two copies differ in that the first
  prints \<^verbatim>\<open>Fitting...\<close> and \<^verbatim>\<open>Predicting...\<close> (\<open>announce\<close>).
\<close>

definition run_model ::
  "bool \<Rightarrow> config \<Rightarrow> 'm model \<Rightarrow> nat \<Rightarrow> nat \<Rightarrow> nat \<Rightarrow> nat \<Rightarrow> 'm \<times> metrics \<times> nat \<Rightarrow> world
     \<Rightarrow> (error + ('m \<times> metrics \<times> nat)) \<times> world" where
  "run_model announce cfg model train_samples train_labels test_samples test_labels acc w =
     (case acc of
        (st, metrics, counter) \<Rightarrow>
          if 0 < length (rows (heap w ! test_labels)) then
            (let w1 = called (Fit_called (model_name model)) (if announce then say Fitting w else w)
             in case fit model st (heap w1 ! train_samples) (heap w1 ! train_labels) of
                  Inl e \<Rightarrow> (Inl e, w1)
                | Inr (st1, fitted_samples, fitted_labels) \<Rightarrow>
                   (let w2 = store train_labels fitted_labels (store train_samples fitted_samples w1);
                        w3 = called (Predict_called (model_name model))
                               (if announce then say Predicting w2 else w2)
                    in case predict model st1 (heap w3 ! test_samples) of
                         Inl e \<Rightarrow> (Inl e, w3)
                       | Inr (st2, predicted_samples, prediction) \<Rightarrow>
                          (let w4 = store test_samples predicted_samples w3
                           in case get_evaluation_metrics (heap w4 ! test_samples) prediction
                                     (heap w4 ! test_labels) (Some metrics) (value_col cfg)
                                     (label_col cfg) (prediction_col cfg) (window_size cfg) of
                                Inl e \<Rightarrow> (Inl e, w4)
                              | Inr metrics' \<Rightarrow> (Inr (st2, metrics', counter + 1), w4))))
          else (Inr acc, w))"

text \<open>A \<^verbatim>\<open>for\<close> loop whose body may raise: the first exception ends the loop.\<close>

fun for_each ::
  "('a \<Rightarrow> 's \<Rightarrow> world \<Rightarrow> (error + 's) \<times> world) \<Rightarrow> 'a list \<Rightarrow> 's \<Rightarrow> world \<Rightarrow> (error + 's) \<times> world" where
  "for_each body [] s w = (Inr s, w)"
| "for_each body (x # xs) s w =
     (case body x s w of
        (Inl e, w') \<Rightarrow> (Inl e, w')
      | (Inr s', w') \<Rightarrow> for_each body xs s' w')"

text \<open>
  The four \<^verbatim>\<open>_prep_set\<close> calls that open a split (lines 58 to 62 and 143 to 147),
  followed by the guarded block.
\<close>

definition run_split ::
  "bool \<Rightarrow> config \<Rightarrow> 'm model \<Rightarrow> nat \<Rightarrow> nat \<Rightarrow> nat list \<Rightarrow> nat list \<Rightarrow> 'm \<times> metrics \<times> nat \<Rightarrow> world
     \<Rightarrow> (error + ('m \<times> metrics \<times> nat)) \<times> world" where
  "run_split announce cfg model X y train test acc w =
     (case prep_set X train w of
        (Inl e, w1) \<Rightarrow> (Inl e, w1)
      | (Inr train_samples, w1) \<Rightarrow>
         (case prep_set y train w1 of
            (Inl e, w2) \<Rightarrow> (Inl e, w2)
          | (Inr train_labels, w2) \<Rightarrow>
             (case prep_set X test w2 of
                (Inl e, w3) \<Rightarrow> (Inl e, w3)
              | (Inr test_samples, w3) \<Rightarrow>
                 (case prep_set y test w3 of
                    (Inl e, w4) \<Rightarrow> (Inl e, w4)
                  | (Inr test_labels, w4) \<Rightarrow>
                      run_model announce cfg model train_samples train_labels test_samples
                        test_labels acc w4))))"

section \<open>The single percentage split\<close>

text \<open>
  Lines 44 to 47 of \<^verbatim>\<open>eval_models\<close>:
  \<^verbatim>\<open>
    num_dates = len(datetimeindex)
    train = datetimeindex[:int(num_dates * train_percent / 100)]
    test = datetimeindex[int(num_dates * train_percent / 100):]
  \<close>
\<close>

definition split_percent :: "'a list \<Rightarrow> int \<Rightarrow> 'a list \<times> 'a list" where
  "split_percent datetimeindex train_percent =
     (let num_dates = length datetimeindex;
          train = slice_to (int_of_quotient (int num_dates * train_percent) 100) datetimeindex;
          test = slice_from (int_of_quotient (int num_dates * train_percent) 100) datetimeindex
      in (train, test))"

text \<open>
  The body of the loop over the models in \<^verbatim>\<open>eval_models\<close>, lines 51 to 82.  The
  accumulator \<^verbatim>\<open>metrics\<close> is assigned first, from the categories of the whole dataset.
\<close>

definition eval_model_single ::
  "config \<Rightarrow> nat \<Rightarrow> nat \<Rightarrow> nat list \<Rightarrow> nat list \<Rightarrow> nat list \<Rightarrow> 'm model
     \<Rightarrow> (string \<rightharpoonup> (nat \<rightharpoonup> final_metrics)) \<Rightarrow> world
     \<Rightarrow> (error + (string \<rightharpoonup> (nat \<rightharpoonup> final_metrics))) \<times> world" where
  "eval_model_single cfg X y train test categories model per_model_res w =
     (let counter = 0;
          metrics = initialize_metrics categories;
          w0 = (if verbose cfg then say (Model_banner (model_str model)) w else w)
      in case run_split True cfg model X y train test (state model, metrics, counter) w0 of
           (Inl e, w1) \<Rightarrow> (Inl e, w1)
         | (Inr (st, metrics', counter'), w1) \<Rightarrow>
             (let final_metrics = get_final_metrics metrics';
                  w2 = (if verbose cfg then say Final_report w1 else w1)
              in (Inr (per_model_res(model_name model \<mapsto> final_metrics)), w2)))"

text \<open>
  \<^verbatim>\<open>eval_models\<close>, lines 37 to 83.  \<open>X\<close> and \<open>y\<close> are references to the caller's frames,
  or \<open>None\<close>.
\<close>

definition eval_models ::
  "nat option \<Rightarrow> nat option \<Rightarrow> 'm model list \<Rightarrow> config \<Rightarrow> int \<Rightarrow> world
     \<Rightarrow> (error + (string \<rightharpoonup> (nat \<rightharpoonup> final_metrics))) \<times> world" where
  "eval_models X y models cfg train_percent w =
     (case X of
        None \<Rightarrow> (Inl TypeError, w)
      | Some Xr \<Rightarrow>
         (case y of
            None \<Rightarrow> (Inl TypeError, w)
          | Some yr \<Rightarrow>
             (let per_model_res = Map.empty;
                  datetimeindex = levels0 (heap w ! Xr);
                  categories = levels1 (heap w ! Xr)
              in case split_percent datetimeindex train_percent of
                   (train, test) \<Rightarrow>
                     for_each (eval_model_single cfg Xr yr train test categories) models
                       per_model_res w)))"

section \<open>The expanding-window split\<close>

text \<open>
  Modelled from the spec: the expanding-window splitter, which is not among the sources
  (\<^verbatim>\<open>TimeSeriesSplit\<close> of scikit-learn, imported on line 5 and called with \<open>n_splits\<close>
  only).  Section 4.1 and the glossary describe a walk-forward scheme: folds in
  chronological order, each test block the next block after its train block, the train
  block growing to all earlier data.  The library's rule is followed: the constructor
  refuses \<open>n_splits < 2\<close>; \<^verbatim>\<open>split\<close> refuses more folds than samples, takes
  \<open>test_size = n_samples // (n_splits + 1)\<close> and yields, for each \<open>test_start\<close> in
  \<^verbatim>\<open>range(n_samples - n_splits * test_size, n_samples, test_size)\<close>, the positions
  \<^verbatim>\<open>indices[:test_start]\<close> and \<^verbatim>\<open>indices[test_start:test_start + test_size]\<close>.
\<close>

text \<open>
  Modelled from the spec: \<^verbatim>\<open>range(start, stop, step)\<close> as the splitter uses it, for a
  positive step: \<open>start\<close>, \<open>start + step\<close>, ... below \<open>stop\<close>.
\<close>

definition py_range :: "nat \<Rightarrow> nat \<Rightarrow> nat \<Rightarrow> nat list" where
  "py_range start stop step = map (\<lambda>i. start + i * step) [0..<(stop - start + step - 1) div step]"

text \<open>
  Modelled from the spec: the constructor of the splitter; it returns the splitter, which
  is its \<open>n_splits\<close>, or raises \<^verbatim>\<open>ValueError\<close>.
\<close>

definition TimeSeriesSplit :: "int \<Rightarrow> error + int" where
  "TimeSeriesSplit n_splits = (if n_splits \<le> 1 then Inl ValueError else Inr n_splits)"

text \<open>
  Modelled from the spec: \<^verbatim>\<open>tscv.split(datetimeindex)\<close> for a constructed splitter, as
  the list of its (train positions, test positions).
\<close>

definition tscv_split :: "int \<Rightarrow> nat \<Rightarrow> error + (nat list \<times> nat list) list" where
  "tscv_split n_splits n_samples =
     (let n_folds = n_splits + 1 in
      if int n_samples < n_folds then Inl ValueError
      else
        (let indices = [0..<n_samples];
             test_size = n_samples div nat n_folds;
             test_starts = py_range (n_samples - nat n_splits * test_size) n_samples test_size
         in Inr (map (\<lambda>test_start. (take test_start indices,
                                      take test_size (drop test_start indices)))
                   test_starts)))"

section \<open>Cross validation\<close>

text \<open>
  The body of the loop over the folds, lines 139 to 160; \<^verbatim>\<open>datetimeindex[train]\<close> reads
  the dates at the positions of the fold.
\<close>

definition cv_fold ::
  "config \<Rightarrow> 'm model \<Rightarrow> nat \<Rightarrow> nat \<Rightarrow> nat list \<Rightarrow> nat list \<times> nat list \<Rightarrow> 'm \<times> metrics \<times> nat \<Rightarrow> world
     \<Rightarrow> (error + ('m \<times> metrics \<times> nat)) \<times> world" where
  "cv_fold cfg model X y datetimeindex train_test acc w =
     (case train_test of
        (train, test) \<Rightarrow>
          (let w0 = (if verbose cfg
                     then say (Iteration_banner (snd (snd acc)) (length train) (length test)
                                 (length datetimeindex)) w
                     else w)
           in run_split False cfg model X y (map ((!) datetimeindex) train)
                (map ((!) datetimeindex) test) acc w0))"

text \<open>The body of the loop over the models in \<^verbatim>\<open>eval_models_CV\<close>, lines 131 to 165.\<close>

definition eval_model_CV ::
  "config \<Rightarrow> nat \<Rightarrow> nat \<Rightarrow> nat list \<Rightarrow> nat list \<Rightarrow> int \<Rightarrow> 'm model
     \<Rightarrow> (string \<rightharpoonup> (nat \<rightharpoonup> final_metrics)) \<Rightarrow> world
     \<Rightarrow> (error + (string \<rightharpoonup> (nat \<rightharpoonup> final_metrics))) \<times> world" where
  "eval_model_CV cfg X y datetimeindex categories n_splits model per_model_res w =
     (let counter = 0;
          metrics = initialize_metrics categories
      in case TimeSeriesSplit n_splits of
           Inl e \<Rightarrow> (Inl e, w)
         | Inr tscv \<Rightarrow>
            (let w0 = (if verbose cfg then say (Model_banner (model_str model)) w else w)
             in case tscv_split tscv (length datetimeindex) of
                  Inl e \<Rightarrow> (Inl e, w0)
                | Inr folds \<Rightarrow>
                   (case for_each (cv_fold cfg model X y datetimeindex) folds
                           (state model, metrics, counter) w0 of
                      (Inl e, w1) \<Rightarrow> (Inl e, w1)
                    | (Inr (st, metrics', counter'), w1) \<Rightarrow>
                       (let final_metrics = get_final_metrics metrics';
                            w2 = (if verbose cfg then say Final_report w1 else w1)
                        in (Inr (per_model_res(model_name model \<mapsto> final_metrics)), w2)))))"

text \<open>\<^verbatim>\<open>eval_models_CV\<close> from line 126 on, with \<open>n_splits\<close> settled.\<close>

definition eval_models_CV_loop ::
  "nat \<Rightarrow> nat \<Rightarrow> 'm model list \<Rightarrow> config \<Rightarrow> int \<Rightarrow> world
     \<Rightarrow> (error + (string \<rightharpoonup> (nat \<rightharpoonup> final_metrics))) \<times> world" where
  "eval_models_CV_loop X y models cfg n_splits w =
     (let per_model_res = Map.empty;
          datetimeindex = levels0 (heap w ! X);
          categories = levels1 (heap w ! X)
      in for_each (eval_model_CV cfg X y datetimeindex categories n_splits) models
           per_model_res w)"

text \<open>
  \<^verbatim>\<open>eval_models_CV\<close>, lines 113 to 166.  \<open>n_splits\<close> is \<open>None\<close> when the caller leaves it
  unset.
\<close>

definition eval_models_CV ::
  "nat option \<Rightarrow> nat option \<Rightarrow> 'm model list \<Rightarrow> config \<Rightarrow> int option \<Rightarrow> world
     \<Rightarrow> (error + (string \<rightharpoonup> (nat \<rightharpoonup> final_metrics))) \<times> world" where
  "eval_models_CV X y models cfg n_splits_arg w =
     (case X of
        None \<Rightarrow> (Inl TypeError, w)
      | Some Xr \<Rightarrow>
         (case y of
            None \<Rightarrow> (Inl TypeError, w)
          | Some yr \<Rightarrow>
             (let num_dates = length (levels0 (heap w ! Xr)) in
              case (case n_splits_arg of
                      None \<Rightarrow> (int_of_quotient (int num_dates) 2,
                                say (Running_splits (int_of_quotient (int num_dates) 2)) w)
                    | Some k \<Rightarrow> (k, w)) of
                (n_splits1, w1) \<Rightarrow>
                  (case (if int num_dates < n_splits1
                         then (int_of_quotient (int num_dates) 2,
                               say (Warning_n_splits (int_of_quotient (int num_dates) 2)) w1)
                         else (n_splits1, w1)) of
                     (n_splits2, w2) \<Rightarrow> eval_models_CV_loop Xr yr models cfg n_splits2 w2))))"

section \<open>A small dataset\<close>

text \<open>
  Six dates, two categories.  The labels have a row at every date, though not at every
  key: there is none at (4, 7).  The model marks every value of at least 5 as an event;
  its \<^verbatim>\<open>fit\<close> empties the two frames it is handed.
\<close>

definition demo_X :: frame where
  "demo_X = \<lparr>index_names = [''date'', ''category''], levels0 = [0, 1, 2, 3, 4, 5],
     levels1 = [7, 8], columns = [''value''],
     rows = [((0, 7), [Some 1]), ((0, 8), [Some 6]), ((1, 7), [Some 2]), ((1, 8), [Some 1]),
             ((2, 7), [Some 7]), ((2, 8), [Some 2]), ((3, 7), [Some 9]), ((3, 8), [Some 1]),
             ((4, 7), [Some 3]), ((4, 8), [Some 8]), ((5, 7), [Some 1]), ((5, 8), [Some 5])]\<rparr>"

definition demo_y :: frame where
  "demo_y = \<lparr>index_names = [''date'', ''category''], levels0 = [0, 1, 2, 3, 4, 5],
     levels1 = [7, 8], columns = [''label''],
     rows = [((0, 8), [Some 1]), ((1, 7), [Some 0]), ((2, 7), [Some 1]), ((3, 7), [Some 0]),
             ((3, 8), [Some 1]), ((4, 8), [Some 0]), ((5, 7), [Some 1]), ((5, 8), [Some 1])]\<rparr>"

definition demo_world :: world where
  "demo_world = \<lparr>heap = [demo_X, demo_y], log = []\<rparr>"

definition demo_model :: "unit model" where
  "demo_model = \<lparr>model_name = ''threshold'', model_str = ''Threshold()'', state = (),
     fit = (\<lambda>st X y. Inr (st, X\<lparr>rows := []\<rparr>, y\<lparr>rows := []\<rparr>)),
     predict = (\<lambda>st X. Inr (st, X,
        X\<lparr>columns := [''prediction''],
          rows := map (\<lambda>r. (fst r, [case snd r of
                                       [Some v] \<Rightarrow> if 5 \<le> v then Some 1 else Some 0
                                     | _ \<Rightarrow> Some 0])) (rows X)\<rparr>))\<rparr>"

definition demo_config :: config where
  "demo_config = \<lparr>label_col = ''label'', prediction_col = ''prediction'', value_col = ''value'',
     verbose = False, window_size = 1\<rparr>"

text \<open>Predictions for four keys, one without label and one without label and value, and
  the table expected from joining them with the labels and the values.\<close>

definition demo_pred :: frame where
  "demo_pred = \<lparr>index_names = [''date'', ''category''], levels0 = [4, 5, 6], levels1 = [7, 8],
     columns = [''prediction''],
     rows = [((5, 8), [Some 1]), ((4, 7), [Some 1]), ((5, 7), [Some 0]), ((6, 7), [Some 1])]\<rparr>"

definition demo_joined :: frame where
  "demo_joined = \<lparr>index_names = [''date'', ''category''], levels0 = [4, 5, 6], levels1 = [7, 8],
     columns = [''prediction'', ''label'', ''value''],
     rows = [((4, 7), [Some 1, Some 0, Some 3]), ((5, 7), [Some 0, Some 1, Some 1]),
             ((5, 8), [Some 1, Some 1, Some 5]), ((6, 7), [Some 1, Some 0, None])]\<rparr>"

text \<open>A sequence of ten flags, with events at the listed positions.\<close>

definition events_at :: "nat list \<Rightarrow> cell list" where
  "events_at ps = map (\<lambda>k. if k \<in> set ps then Some 1 else Some 0) [0..<10]"

text \<open>A second model, which predicts no event at all.\<close>

definition quiet_model :: "unit model" where
  "quiet_model = \<lparr>model_name = ''quiet'', model_str = ''Quiet()'', state = (),
     fit = (\<lambda>st X y. Inr (st, X, y)),
     predict = (\<lambda>st X. Inr (st, X,
        X\<lparr>columns := [''prediction''], rows := map (\<lambda>r. (fst r, [Some 0])) (rows X)\<rparr>))\<rparr>"

text \<open>
  The same labels without the rows of the last date, as a frame built from these rows:
  its first index level has the five dates in use.
\<close>

definition gap_y :: frame where
  "gap_y = \<lparr>index_names = [''date'', ''category''], levels0 = [0, 1, 2, 3, 4],
     levels1 = [7, 8], columns = [''label''],
     rows = [((0, 8), [Some 1]), ((1, 7), [Some 0]), ((2, 7), [Some 1]), ((3, 7), [Some 0]),
             ((3, 8), [Some 1]), ((4, 8), [Some 0])]\<rparr>"

definition gap_world :: world where
  "gap_world = \<lparr>heap = [demo_X, gap_y], log = []\<rparr>"

text \<open>A dataset of three dates and one category, with a label at every key.\<close>

definition small_X :: frame where
  "small_X = \<lparr>index_names = [''date'', ''category''], levels0 = [0, 1, 2], levels1 = [7],
     columns = [''value''],
     rows = [((0, 7), [Some 1]), ((1, 7), [Some 7]), ((2, 7), [Some 2])]\<rparr>"

definition small_y :: frame where
  "small_y = \<lparr>index_names = [''date'', ''category''], levels0 = [0, 1, 2], levels1 = [7],
     columns = [''label''],
     rows = [((0, 7), [Some 0]), ((1, 7), [Some 1]), ((2, 7), [Some 0])]\<rparr>"

definition small_world :: world where
  "small_world = \<lparr>heap = [small_X, small_y], log = []\<rparr>"

text \<open>Two frames that are defined and hold no row, no date and no category.\<close>

definition empty_frame :: frame where
  "empty_frame = \<lparr>index_names = [''date'', ''category''], levels0 = [], levels1 = [],
     columns = [''value''], rows = []\<rparr>"

definition empty_world :: world where
  "empty_world = \<lparr>heap = [empty_frame, empty_frame], log = []\<rparr>"

section \<open>What a run leaves in place\<close>

text \<open>
  \<open>keeps n w w'\<close>: from \<open>w\<close> to \<open>w'\<close> no object was removed, the first \<open>n\<close> objects are
  unchanged, and the log was only extended.
\<close>

definition keeps :: "nat \<Rightarrow> world \<Rightarrow> world \<Rightarrow> bool" where
  "keeps n w w' =
     (length (heap w) \<le> length (heap w') \<and> take n (heap w') = take n (heap w)
      \<and> take (length (log w)) (log w') = log w)"

text \<open>
  \<open>same_inputs X y w v\<close>: \<open>X\<close> and \<open>y\<close> refer to objects of both worlds, with the same
  content in both.
\<close>

definition same_inputs :: "nat \<Rightarrow> nat \<Rightarrow> world \<Rightarrow> world \<Rightarrow> bool" where
  "same_inputs X y w v =
     (X < length (heap w) \<and> y < length (heap w) \<and> X < length (heap v) \<and> y < length (heap v)
      \<and> heap w ! X = heap v ! X \<and> heap w ! y = heap v ! y)"

section \<open>Properties of the split\<close>

lemma slice_to_from_append: "slice_to k xs @ slice_from k xs = xs"
  by (simp add: slice_to_def slice_from_def)

lemma int_of_quotient_percent:
  assumes "0 \<le> p" and "p \<le> 100"
  shows "int_of_quotient (int n * p) 100 = int (n * nat p div 100)"
proof -
  have nonneg: "0 \<le> int n * p" using assms by simp
  have prod: "int n * p = int (n * nat p)" using assms by simp
  have "int_of_quotient (int n * p) 100 = int n * p div 100"
    using nonneg by (simp add: int_of_quotient_def)
  also have "\<dots> = int (n * nat p) div 100" by (simp only: prod)
  also have "\<dots> = int (n * nat p div 100)" by (simp add: zdiv_int)
  finally show ?thesis .
qed

lemma percent_prefix_le:
  assumes "p \<le> 100"
  shows "n * nat p div 100 \<le> n"
proof -
  have "nat p \<le> 100" using assms by simp
  then have "n * nat p \<le> n * 100" by (rule mult_le_mono2)
  then have "n * nat p div 100 \<le> n * 100 div 100" by (rule div_le_mono)
  then show ?thesis by simp
qed

text \<open>
  C4.  The single split of \<^verbatim>\<open>eval_models\<close>, for a date axis without repeated dates.
  Train set and test set are a prefix and the remaining suffix of the date axis: they
  are disjoint and together they are the whole date axis, in order, for every integer
  \<open>train_percent\<close>.  For a percentage within its range 0 to 100 the prefix has length
  \<open>floor (len(dates) * train_percent / 100)\<close>.
\<close>

theorem split_percent_prefix_suffix:
  assumes "distinct dates"
  shows "fst (split_percent dates p) @ snd (split_percent dates p) = dates
       \<and> set (fst (split_percent dates p)) \<inter> set (snd (split_percent dates p)) = {}
       \<and> set (fst (split_percent dates p)) \<union> set (snd (split_percent dates p)) = set dates
       \<and> (0 \<le> p \<and> p \<le> 100 \<longrightarrow>
            split_percent dates p
              = (take (length dates * nat p div 100) dates,
                 drop (length dates * nat p div 100) dates)
            \<and> length (fst (split_percent dates p)) = length dates * nat p div 100)"
proof -
  define b where
    "b = slice_bound (length dates) (int_of_quotient (int (length dates) * p) 100)"
  have sp: "split_percent dates p = (take b dates, drop b dates)"
    by (simp add: split_percent_def slice_to_def slice_from_def b_def Let_def)
  have d: "distinct (take b dates @ drop b dates)" using assms by simp
  have disj: "set (take b dates) \<inter> set (drop b dates) = {}"
    using d unfolding distinct_append by blast
  have cover: "set (take b dates) \<union> set (drop b dates) = set dates"
    by (metis append_take_drop_id set_append)
  have inrange: "b = length dates * nat p div 100 \<and> b \<le> length dates"
    if "0 \<le> p" and "p \<le> 100"
  proof -
    let ?k = "length dates * nat p div 100"
    have q: "int_of_quotient (int (length dates) * p) 100 = int ?k"
      using that by (rule int_of_quotient_percent)
    have le: "?k \<le> length dates" using that(2) by (rule percent_prefix_le)
    then show ?thesis by (simp add: b_def q slice_bound_def)
  qed
  show ?thesis using sp disj cover inrange by auto
qed

theorem split_percent_prefix_suffix_witness:
  "distinct [10, 11, 12, 13, 14, 15, 16, 17, 18, 19 :: nat] \<and> (0::int) \<le> 70 \<and> (70::int) \<le> 100
   \<and> split_percent [10, 11, 12, 13, 14, 15, 16, 17, 18, 19 :: nat] 70
       = ([10, 11, 12, 13, 14, 15, 16], [17, 18, 19])"
proof -
  have d: "distinct [10, 11, 12, 13, 14, 15, 16, 17, 18, 19 :: nat]" by simp
  show ?thesis
    using d split_percent_prefix_suffix [OF d, of 70] by simp
qed


section \<open>Objects that exist before a run are not written to\<close>

lemma keeps_refl: "keeps n w w"
  by (simp add: keeps_def)

lemma keeps_trans: "keeps n w w1 \<Longrightarrow> keeps n w1 w2 \<Longrightarrow> keeps n w w2"
  unfolding keeps_def
  by (metis (no_types, lifting) append_eq_conv_conj append_take_drop_id le_trans take_append length_take min.absorb2 nat_le_linear take_all take_take)

lemma keeps_say: "keeps n w (say m w)"
  by (simp add: keeps_def say_def)

lemma keeps_called: "keeps n w (called e w)"
  by (simp add: keeps_def called_def)

lemma keeps_alloc: "n \<le> length (heap w) \<Longrightarrow> alloc f w = (a, w') \<Longrightarrow> keeps n w w' \<and> a = length (heap w) \<and> length (heap w') = Suc a"
  by (auto simp: keeps_def alloc_def)

lemma keeps_store: "n \<le> a \<Longrightarrow> keeps n w (store a f w)"
  by (simp add: keeps_def store_def)

lemma keeps_prep_set:
  assumes "n \<le> length (heap w)" and "prep_set X dates w = (r, w')"
  shows "keeps n w w' \<and> (\<forall>a. r = Inr a \<longrightarrow> length (heap w) \<le> a \<and> a < length (heap w'))"
  using assms
  apply (auto simp: prep_set_def alloc_def store_def keeps_def split: sum.splits prod.splits)
  done

lemma keeps_length: "keeps n w w' \<Longrightarrow> length (heap w) \<le> length (heap w')"
  by (simp add: keeps_def)

lemma keeps_run_model:
  assumes "n \<le> train_samples" and "n \<le> train_labels" and "n \<le> test_samples"
    and "run_model announce cfg model train_samples train_labels test_samples test_labels acc w = (r, w')"
  shows "keeps n w w'"
proof -
  obtain st metrics counter where acc: "acc = (st, metrics, counter)" by (cases acc) auto
  show ?thesis
    using assms
    by (auto simp: run_model_def acc Let_def keeps_def store_def called_def say_def
             split: if_splits sum.splits prod.splits)
qed

lemma keeps_run_split:
  assumes n: "n \<le> length (heap w)" and run: "run_split announce cfg model X y train test acc w = (r, w')"
  shows "keeps n w w'"
proof (cases "prep_set X train w")
  case p1: (Pair r1 w1)
  have k1: "keeps n w w1" and a1: "\<forall>a. r1 = Inr a \<longrightarrow> length (heap w) \<le> a"
    using keeps_prep_set [OF n p1] by auto
  have n1: "n \<le> length (heap w1)" using n keeps_length [OF k1] by simp
  show ?thesis
  proof (cases r1)
    case (Inl e)
    then show ?thesis using run p1 k1 by (simp add: run_split_def)
  next
    case r1: (Inr train_samples)
    show ?thesis
    proof (cases "prep_set y train w1")
      case p2: (Pair r2 w2)
      have k2: "keeps n w1 w2" and a2: "\<forall>a. r2 = Inr a \<longrightarrow> length (heap w1) \<le> a"
        using keeps_prep_set [OF n1 p2] by auto
      have n2: "n \<le> length (heap w2)" using n1 keeps_length [OF k2] by simp
      show ?thesis
      proof (cases r2)
        case (Inl e)
        then show ?thesis using run p1 r1 p2 keeps_trans [OF k1 k2] by (simp add: run_split_def)
      next
        case r2: (Inr train_labels)
        show ?thesis
        proof (cases "prep_set X test w2")
          case p3: (Pair r3 w3)
          have k3: "keeps n w2 w3" and a3: "\<forall>a. r3 = Inr a \<longrightarrow> length (heap w2) \<le> a"
            using keeps_prep_set [OF n2 p3] by auto
          have n3: "n \<le> length (heap w3)" using n2 keeps_length [OF k3] by simp
          have k13: "keeps n w w3" using k1 k2 k3 keeps_trans by blast
          show ?thesis
          proof (cases r3)
            case (Inl e)
            then show ?thesis using run p1 r1 p2 r2 p3 k13 by (simp add: run_split_def)
          next
            case r3: (Inr test_samples)
            show ?thesis
            proof (cases "prep_set y test w3")
              case p4: (Pair r4 w4)
              have k4: "keeps n w3 w4" using keeps_prep_set [OF n3 p4] by auto
              have k14: "keeps n w w4" using k13 k4 keeps_trans by blast
              show ?thesis
              proof (cases r4)
                case (Inl e)
                then show ?thesis using run p1 r1 p2 r2 p3 r3 p4 k14 by (simp add: run_split_def)
              next
                case r4: (Inr test_labels)
                have rm: "run_model announce cfg model train_samples train_labels test_samples
                            test_labels acc w4 = (r, w')"
                  using run p1 r1 p2 r2 p3 r3 p4 r4 by (simp add: run_split_def)
                have "n \<le> train_samples" using a1 r1 n by auto
                moreover have "n \<le> train_labels" using a2 r2 n1 by auto
                moreover have "n \<le> test_samples" using a3 r3 n2 by auto
                ultimately have "keeps n w4 w'" using rm by (rule keeps_run_model)
                then show ?thesis using k14 keeps_trans by blast
              qed
            qed
          qed
        qed
      qed
    qed
  qed
qed

lemma keeps_for_each:
  assumes step: "\<And>x s w r w'. n \<le> length (heap w) \<Longrightarrow> body x s w = (r, w') \<Longrightarrow> keeps n w w'"
  shows "n \<le> length (heap w) \<Longrightarrow> for_each body xs s w = (r, w') \<Longrightarrow> keeps n w w'"
proof (induction xs arbitrary: s w)
  case Nil
  then show ?case by (simp add: keeps_refl)
next
  case (Cons x xs)
  obtain r1 w1 where b: "body x s w = (r1, w1)" by (cases "body x s w") auto
  have k1: "keeps n w w1" using step [OF Cons.prems(1) b] .
  show ?case
  proof (cases r1)
    case (Inl e)
    then show ?thesis using Cons.prems(2) b k1 by simp
  next
    case (Inr s1)
    have n1: "n \<le> length (heap w1)" using Cons.prems(1) keeps_length [OF k1] by simp
    have "for_each body xs s1 w1 = (r, w')" using Cons.prems(2) b Inr by simp
    then have "keeps n w1 w'" using Cons.IH n1 by blast
    then show ?thesis using k1 keeps_trans by blast
  qed
qed

lemma keeps_eval_model_single:
  assumes "n \<le> length (heap w)"
    and "eval_model_single cfg X y train test categories model res w = (r, w')"
  shows "keeps n w w'"
proof -
  let ?w0 = "if verbose cfg then say (Model_banner (model_str model)) w else w"
  obtain r1 w1 where rs: "run_split True cfg model X y train test
      (state model, initialize_metrics categories, 0) ?w0 = (r1, w1)"
    by (cases "run_split True cfg model X y train test
      (state model, initialize_metrics categories, 0) ?w0") auto
  have k0: "keeps n w ?w0" by (simp add: keeps_say keeps_refl)
  have "n \<le> length (heap ?w0)" using assms(1) by (simp add: say_def)
  then have k1: "keeps n ?w0 w1" using rs by (rule keeps_run_split)
  have k01: "keeps n w w1" using k0 k1 by (rule keeps_trans)
  have "keeps n w1 w'"
    using assms(2) rs
    by (auto simp: eval_model_single_def Let_def keeps_say keeps_refl split: sum.splits prod.splits if_splits)
  then show ?thesis using k01 keeps_trans by blast
qed

lemma keeps_eval_models:
  assumes "eval_models X y models cfg train_percent w = (r, w')"
  shows "keeps (length (heap w)) w w'"
proof (cases X)
  case None
  then show ?thesis using assms by (simp add: eval_models_def keeps_refl)
next
  case X: (Some Xr)
  show ?thesis
  proof (cases y)
    case None
    then show ?thesis using assms X by (simp add: eval_models_def keeps_refl)
  next
    case y: (Some yr)
    obtain train test where sp: "split_percent (levels0 (heap w ! Xr)) train_percent = (train, test)"
      by (cases "split_percent (levels0 (heap w ! Xr)) train_percent") auto
    have "for_each (eval_model_single cfg Xr yr train test (levels1 (heap w ! Xr))) models Map.empty w = (r, w')"
      using assms X y sp by (simp add: eval_models_def Let_def)
    then show ?thesis
      using keeps_for_each [where n = "length (heap w)" and body = "eval_model_single cfg Xr yr train test (levels1 (heap w ! Xr))"]
        keeps_eval_model_single by blast
  qed
qed

lemma keeps_cv_fold:
  assumes "n \<le> length (heap w)" and "cv_fold cfg model X y datetimeindex tt acc w = (r, w')"
  shows "keeps n w w'"
proof -
  obtain train test where tt: "tt = (train, test)" by (cases tt) auto
  let ?w0 = "if verbose cfg
             then say (Iteration_banner (snd (snd acc)) (length train) (length test) (length datetimeindex)) w
             else w"
  have k0: "keeps n w ?w0" by (simp add: keeps_say keeps_refl)
  have n0: "n \<le> length (heap ?w0)" using assms(1) by (simp add: say_def)
  have "run_split False cfg model X y (map ((!) datetimeindex) train) (map ((!) datetimeindex) test) acc ?w0 = (r, w')"
    using assms(2) by (simp add: cv_fold_def tt Let_def)
  then have "keeps n ?w0 w'" using n0 keeps_run_split by blast
  then show ?thesis using k0 keeps_trans by blast
qed

lemma keeps_eval_model_CV:
  assumes n: "n \<le> length (heap w)"
    and run: "eval_model_CV cfg X y datetimeindex categories n_splits model res w = (r, w')"
  shows "keeps n w w'"
proof (cases "TimeSeriesSplit n_splits")
  case (Inl e)
  then show ?thesis using run by (simp add: eval_model_CV_def keeps_refl)
next
  case ts: (Inr tscv)
  let ?w0 = "if verbose cfg then say (Model_banner (model_str model)) w else w"
  have k0: "keeps n w ?w0" by (simp add: keeps_say keeps_refl)
  have n0: "n \<le> length (heap ?w0)" using n by (simp add: say_def)
  show ?thesis
  proof (cases "tscv_split tscv (length datetimeindex)")
    case (Inl e)
    then show ?thesis using run ts k0 by (simp add: eval_model_CV_def Let_def)
  next
    case sp: (Inr folds)
    obtain r1 w1 where fe: "for_each (cv_fold cfg model X y datetimeindex) folds
        (state model, initialize_metrics categories, 0) ?w0 = (r1, w1)"
      by (cases "for_each (cv_fold cfg model X y datetimeindex) folds
        (state model, initialize_metrics categories, 0) ?w0") auto
    have k1: "keeps n ?w0 w1"
      using keeps_for_each [where n = n and body = "cv_fold cfg model X y datetimeindex", OF _ n0 fe]
        keeps_cv_fold by blast
    have "keeps n w1 w'"
      using run ts sp fe
      by (auto simp: eval_model_CV_def Let_def keeps_say keeps_refl split: sum.splits prod.splits if_splits)
    then show ?thesis using k0 k1 keeps_trans by blast
  qed
qed

lemma keeps_eval_models_CV_loop:
  assumes "n \<le> length (heap w)" and "eval_models_CV_loop X y models cfg n_splits w = (r, w')"
  shows "keeps n w w'"
  using assms keeps_for_each [where n = n
      and body = "eval_model_CV cfg X y (levels0 (heap w ! X)) (levels1 (heap w ! X)) n_splits"]
    keeps_eval_model_CV
  unfolding eval_models_CV_loop_def Let_def by blast

lemma keeps_eval_models_CV:
  assumes "eval_models_CV X y models cfg n_splits_arg w = (r, w')"
  shows "keeps (length (heap w)) w w'"
proof (cases X)
  case None
  then show ?thesis using assms by (simp add: eval_models_CV_def keeps_refl)
next
  case X: (Some Xr)
  show ?thesis
  proof (cases y)
    case None
    then show ?thesis using assms X by (simp add: eval_models_CV_def keeps_refl)
  next
    case y: (Some yr)
    obtain k w2 where loop: "eval_models_CV_loop Xr yr models cfg k w2 = (r, w')"
      and k2: "keeps (length (heap w)) w w2"
      using assms X y
      by (auto simp: eval_models_CV_def Let_def keeps_say keeps_refl
          intro: keeps_trans [OF keeps_say keeps_say]
          split: option.splits if_splits prod.splits)
    have "length (heap w) \<le> length (heap w2)" using k2 by (rule keeps_length)
    then have "keeps (length (heap w)) w2 w'" using loop by (rule keeps_eval_models_CV_loop)
    then show ?thesis using k2 keeps_trans by blast
  qed
qed

lemma keeps_nth: "keeps (length (heap w)) w w' \<Longrightarrow> a < length (heap w) \<Longrightarrow> heap w' ! a = heap w ! a"
  unfolding keeps_def by (metis nth_take take_all order_refl)

lemma keeps_heap: "keeps (length (heap w)) w w' \<Longrightarrow> take (length (heap w)) (heap w') = heap w"
  unfolding keeps_def by simp

text \<open>
  C10.  \<^verbatim>\<open>eval_models\<close> and \<^verbatim>\<open>eval_models_CV\<close> leave the features frame \<open>X\<close> and the
  labels frame \<open>y\<close> as they were: every object that existed before the call holds the
  same rows and values after it, whatever the models do to the frames they are handed,
  because each train and test subset is a new object taken from a copy
  (\<^verbatim>\<open>_prep_set\<close>).  This holds for a run that returns and for a run that raises.
\<close>

theorem inputs_left_unchanged:
  assumes "X < length (heap w)" and "y < length (heap w)"
  shows "take (length (heap w)) (heap (snd (eval_models (Some X) (Some y) models cfg train_percent w))) = heap w
       \<and> heap (snd (eval_models (Some X) (Some y) models cfg train_percent w)) ! X = heap w ! X
       \<and> heap (snd (eval_models (Some X) (Some y) models cfg train_percent w)) ! y = heap w ! y
       \<and> take (length (heap w)) (heap (snd (eval_models_CV (Some X) (Some y) models cfg n_splits w))) = heap w
       \<and> heap (snd (eval_models_CV (Some X) (Some y) models cfg n_splits w)) ! X = heap w ! X
       \<and> heap (snd (eval_models_CV (Some X) (Some y) models cfg n_splits w)) ! y = heap w ! y"
proof -
  have k1: "keeps (length (heap w)) w (snd (eval_models (Some X) (Some y) models cfg train_percent w))"
    using keeps_eval_models [of "Some X" "Some y" models cfg train_percent w] by (metis prod.collapse)
  have k2: "keeps (length (heap w)) w (snd (eval_models_CV (Some X) (Some y) models cfg n_splits w))"
    using keeps_eval_models_CV [of "Some X" "Some y" models cfg n_splits w] by (metis prod.collapse)
  show ?thesis
    using keeps_nth [OF k1] keeps_nth [OF k2] keeps_heap [OF k1] keeps_heap [OF k2] assms by simp
qed

theorem inputs_left_unchanged_witness:
  "(0::nat) < length (heap demo_world) \<and> (1::nat) < length (heap demo_world)
   \<and> heap (snd (eval_models (Some 0) (Some 1) [demo_model] demo_config 70 demo_world)) ! 0 = demo_X
   \<and> heap (snd (eval_models (Some 0) (Some 1) [demo_model] demo_config 70 demo_world)) ! 1 = demo_y
   \<and> heap (snd (eval_models_CV (Some 0) (Some 1) [demo_model] demo_config None demo_world)) ! 0 = demo_X
   \<and> heap (snd (eval_models_CV (Some 0) (Some 1) [demo_model] demo_config None demo_world)) ! 1 = demo_y
   \<and> rows (heap (snd (eval_models (Some 0) (Some 1) [demo_model] demo_config 70 demo_world)) ! 3) = []
   \<and> log (snd (eval_models (Some 0) (Some 1) [demo_model] demo_config 70 demo_world))
       = [Printed Fitting, Fit_called ''threshold'', Printed Predicting, Predict_called ''threshold'']"
proof -
  have kept: "(0::nat) < length (heap demo_world) \<and> (1::nat) < length (heap demo_world)
   \<and> heap (snd (eval_models (Some 0) (Some 1) [demo_model] demo_config 70 demo_world)) ! 0 = demo_X
   \<and> heap (snd (eval_models (Some 0) (Some 1) [demo_model] demo_config 70 demo_world)) ! 1 = demo_y
   \<and> heap (snd (eval_models_CV (Some 0) (Some 1) [demo_model] demo_config None demo_world)) ! 0 = demo_X
   \<and> heap (snd (eval_models_CV (Some 0) (Some 1) [demo_model] demo_config None demo_world)) ! 1 = demo_y"
    using inputs_left_unchanged [of 0 demo_world 1 "[demo_model]" demo_config 70 None]
    by (simp add: demo_world_def)
  have written: "rows (heap (snd (eval_models (Some 0) (Some 1) [demo_model] demo_config 70 demo_world)) ! 3) = []
   \<and> log (snd (eval_models (Some 0) (Some 1) [demo_model] demo_config 70 demo_world))
       = [Printed Fitting, Fit_called ''threshold'', Printed Predicting, Predict_called ''threshold'']"
    by code_simp
  show ?thesis using kept written by simp
qed

section \<open>Undefined inputs\<close>

text \<open>
  C3, as amended.  When the features or the labels are undefined (\<^verbatim>\<open>None\<close>), both
  \<^verbatim>\<open>eval_models\<close> and \<^verbatim>\<open>eval_models_CV\<close> raise at once (\<^verbatim>\<open>TypeError\<close>): nothing has
  been printed, no model has been fit or asked to predict, and no object has been
  created or changed.
\<close>

theorem none_input_raises_type_error:
  assumes "X = None \<or> y = None"
  shows "eval_models X y models cfg train_percent w = (Inl TypeError, w)
       \<and> eval_models_CV X y models cfg n_splits w = (Inl TypeError, w)"
  using assms by (auto simp: eval_models_def eval_models_CV_def split: option.splits)

theorem none_input_raises_type_error_witness:
  "eval_models None (Some 1) [demo_model] demo_config 70 demo_world = (Inl TypeError, demo_world)
   \<and> eval_models_CV None (Some 1) [demo_model] demo_config None demo_world
       = (Inl TypeError, demo_world)"
  using none_input_raises_type_error [of None "Some 1" "[demo_model]" demo_config 70 demo_world None]
  by simp

text \<open>
  The guard tests for \<^verbatim>\<open>None\<close> only.  Features and labels that are defined and empty
  pass it: \<^verbatim>\<open>eval_models\<close> returns a report, without raising and without calling the
  model.
\<close>

theorem empty_input_is_not_rejected:
  "\<not> isl (fst (eval_models (Some 0) (Some 1) [demo_model] demo_config 70 empty_world))
   \<and> log (snd (eval_models (Some 0) (Some 1) [demo_model] demo_config 70 empty_world))
       = [] "
  by code_simp

section \<open>The folds of the cross validation\<close>

lemma py_range_blocks:
  assumes "0 < step" and that: "k * step \<le> stop"
  shows "py_range (stop - k * step) stop step = map (\<lambda>i. stop - k * step + i * step) [0..<k]"
proof -
  have "stop - (stop - k * step) = k * step" using that by simp
  then have "(stop - (stop - k * step) + step - 1) div step = (k * step + (step - 1)) div step"
    using assms by simp
  also have "\<dots> = k + (step - 1) div step"
    using assms by (simp only: div_mult_self3)
  also have "\<dots> = k" using assms by simp
  finally show ?thesis by (simp add: py_range_def)
qed

lemma tscv_split_folds:
  assumes ok: "TimeSeriesSplit n_splits = Inr tscv" and sp: "tscv_split tscv n = Inr folds"
  shows "\<exists>k ts. k = nat n_splits \<and> 2 \<le> k \<and> 0 < ts \<and> (k + 1) * ts \<le> n
           \<and> folds = map (\<lambda>i. ([0..<n - k * ts + i * ts],
                                 [n - k * ts + i * ts..<n - k * ts + i * ts + ts])) [0..<k]"
proof -
  have t: "tscv = n_splits" and k2: "2 \<le> n_splits"
    using ok by (auto simp: TimeSeriesSplit_def split: if_splits)
  define k where "k = nat n_splits"
  define ts where "ts = n div (k + 1)"
  have kk: "2 \<le> k" using k2 by (simp add: k_def)
  have nf: "nat (n_splits + 1) = k + 1" using k2 by (simp add: k_def)
  have le: "k + 1 \<le> n" using sp t k2 by (auto simp: tscv_split_def Let_def k_def split: if_splits)
  have ts0: "0 < ts" using le by (simp add: ts_def div_greater_zero_iff)
  have tot: "(k + 1) * ts \<le> n" unfolding ts_def by (rule times_div_less_eq_dividend)
  have kts: "k * ts \<le> n" using tot by simp
  have folds: "folds = map (\<lambda>test_start. (take test_start [0..<n], take ts (drop test_start [0..<n])))
                  (py_range (n - k * ts) n ts)"
    using sp t k2 le nf by (auto simp: tscv_split_def Let_def k_def ts_def split: if_splits)
  have rng: "py_range (n - k * ts) n ts = map (\<lambda>i. n - k * ts + i * ts) [0..<k]"
    using ts0 kts by (rule py_range_blocks)
  have blk: "(take (n - k * ts + i * ts) [0..<n], take ts (drop (n - k * ts + i * ts) [0..<n]))
              = ([0..<n - k * ts + i * ts], [n - k * ts + i * ts..<n - k * ts + i * ts + ts])"
    if "i < k" for i
  proof -
    have "Suc i * ts \<le> k * ts" using that by (intro mult_le_mono1) simp
    then have "n - k * ts + i * ts + ts \<le> n" using kts by simp
    then show ?thesis by (simp add: take_upt min_def)
  qed
  have "folds = map (\<lambda>i. ([0..<n - k * ts + i * ts],
                                 [n - k * ts + i * ts..<n - k * ts + i * ts + ts])) [0..<k]"
    unfolding folds rng map_map comp_def using blk by (intro map_cong) auto
  then show ?thesis using kk ts0 tot k_def by blast
qed

lemma dates_blocks_ordered:
  assumes "sorted_wrt (<) dates" and "b \<le> c" and "d \<le> length dates"
  shows "\<forall>x\<in>set (map ((!) dates) [a..<b]). \<forall>y\<in>set (map ((!) dates) [c..<d]). x < y"
proof (intro ballI)
  fix x y
  assume "x \<in> set (map ((!) dates) [a..<b])" and "y \<in> set (map ((!) dates) [c..<d])"
  then obtain p q where p: "x = dates ! p" "p < b" and q: "y = dates ! q" "c \<le> q" "q < d"
    by auto
  have "p < q" and "q < length dates" using p q assms by simp_all
  then show "x < y" using assms(1) p(1) q(1) by (simp add: sorted_wrt_nth_less)
qed

text \<open>
  C8.  The folds that \<^verbatim>\<open>eval_models_CV\<close> iterates over (lines 134 to 138), read as
  dates of a sorted date axis without repetition: there are \<open>n_splits\<close> folds; every
  test set is non-empty; for folds \<open>i < j\<close> the test sets are disjoint and every test
  date of fold \<open>i\<close> is before every test date of fold \<open>j\<close> (the folds come in
  chronological order); the test dates of a fold are after its train dates; the train
  set of the next fold is the train set followed by the test set of the fold, and the
  train set of any later fold contains both.
\<close>

theorem expanding_window_folds:
  assumes ok: "TimeSeriesSplit n_splits = Inr tscv"
    and sp: "tscv_split tscv (length dates) = Inr folds"
    and sorted: "sorted dates" and distinct: "distinct dates"
    and ij: "i < j" and j: "j < length folds"
  shows "length folds = nat n_splits
       \<and> map ((!) dates) (snd (folds ! i)) \<noteq> []
       \<and> set (map ((!) dates) (snd (folds ! i))) \<inter> set (map ((!) dates) (snd (folds ! j))) = {}
       \<and> map ((!) dates) (fst (folds ! Suc i))
           = map ((!) dates) (fst (folds ! i)) @ map ((!) dates) (snd (folds ! i))
       \<and> set (map ((!) dates) (fst (folds ! i))) \<union> set (map ((!) dates) (snd (folds ! i)))
           \<subseteq> set (map ((!) dates) (fst (folds ! j)))
       \<and> (\<forall>a\<in>set (map ((!) dates) (fst (folds ! i))).
            \<forall>b\<in>set (map ((!) dates) (snd (folds ! i))). a < b)
       \<and> (\<forall>a\<in>set (map ((!) dates) (snd (folds ! i))).
            \<forall>b\<in>set (map ((!) dates) (snd (folds ! j))). a < b)"
proof -
  define n where "n = length dates"
  obtain k ts where k: "k = nat n_splits" and ts0: "0 < ts" and tot: "(k + 1) * ts \<le> n"
    and folds: "folds = map (\<lambda>i. ([0..<n - k * ts + i * ts],
                                 [n - k * ts + i * ts..<n - k * ts + i * ts + ts])) [0..<k]"
    using tscv_split_folds [OF ok sp] unfolding n_def by blast
  define s where "s = (\<lambda>i. n - k * ts + i * ts)"
  have len: "length folds = k" by (simp add: folds)
  have jk: "j < k" and ik: "i < k" and sik: "Suc i < k \<or> Suc i = j" using ij j len by auto
  have sk: "Suc i < k" using ij jk by simp
  have fi: "folds ! i = ([0..<s i], [s i..<s i + ts])" using ik by (simp add: folds s_def)
  have fj: "folds ! j = ([0..<s j], [s j..<s j + ts])" using jk by (simp add: folds s_def)
  have fs: "folds ! Suc i = ([0..<s i + ts], [s i + ts..<s i + ts + ts])"
  proof -
    have e: "n - k * ts + Suc i * ts = s i + ts" by (simp add: s_def)
    have "folds ! Suc i = ([0..<n - k * ts + Suc i * ts],
                            [n - k * ts + Suc i * ts..<n - k * ts + Suc i * ts + ts])"
      using sk unfolding folds by (simp del: mult_Suc)
    then show ?thesis unfolding e .
  qed
  have "Suc i * ts \<le> j * ts" using ij by (intro mult_le_mono1) simp
  then have step: "s i + ts \<le> s j" by (simp add: s_def)
  have "Suc j * ts \<le> k * ts" using jk by (intro mult_le_mono1) simp
  moreover have "k * ts \<le> n" using tot by simp
  ultimately have top: "s j + ts \<le> n" by (simp add: s_def)
  have strict: "sorted_wrt (<) dates" using sorted distinct by (simp add: strict_sorted_iff)
  have o1: "\<forall>a\<in>set (map ((!) dates) [0..<s i]). \<forall>b\<in>set (map ((!) dates) [s i..<s i + ts]). a < b"
    using strict step top by (intro dates_blocks_ordered) (auto simp: n_def)
  have o2: "\<forall>a\<in>set (map ((!) dates) [s i..<s i + ts]). \<forall>b\<in>set (map ((!) dates) [s j..<s j + ts]). a < b"
    using strict step top by (intro dates_blocks_ordered) (auto simp: n_def)
  have disj: "set (map ((!) dates) [s i..<s i + ts]) \<inter> set (map ((!) dates) [s j..<s j + ts]) = {}"
  proof -
    have "x \<noteq> y" if "x \<in> set (map ((!) dates) [s i..<s i + ts])"
      and "y \<in> set (map ((!) dates) [s j..<s j + ts])" for x y
      using o2 that by fastforce
    then show ?thesis by blast
  qed
  have app: "map ((!) dates) [0..<s i + ts] = map ((!) dates) [0..<s i] @ map ((!) dates) [s i..<s i + ts]"
    using upt_add_eq_append [of 0 "s i" ts] by simp
  have sub: "set (map ((!) dates) [0..<s i]) \<union> set (map ((!) dates) [s i..<s i + ts])
               \<subseteq> set (map ((!) dates) [0..<s j])"
    using step by auto
  have ne: "map ((!) dates) [s i..<s i + ts] \<noteq> []" using ts0 by simp
  show ?thesis
    unfolding fi fj fs fst_conv snd_conv
    using len k ne disj app sub o1 o2 by (simp only: simp_thms)
qed

theorem expanding_window_folds_witness:
  "TimeSeriesSplit 3 = Inr 3
   \<and> tscv_split 3 (length [10, 20, 30, 40, 50, 60 :: nat])
       = Inr [([0, 1, 2], [3]), ([0, 1, 2, 3], [4]), ([0, 1, 2, 3, 4], [5])]
   \<and> sorted [10, 20, 30, 40, 50, 60 :: nat] \<and> distinct [10, 20, 30, 40, 50, 60 :: nat]
   \<and> set (map ((!) [10, 20, 30, 40, 50, 60 :: nat]) [3]) \<inter> set (map ((!) [10, 20, 30, 40, 50, 60]) [5]) = {}
   \<and> map ((!) [10, 20, 30, 40, 50, 60 :: nat]) [0, 1, 2, 3] = [10, 20, 30] @ [40]"
proof -
  have c: "TimeSeriesSplit 3 = Inr 3" by (simp add: TimeSeriesSplit_def)
  have s: "tscv_split 3 (length [10, 20, 30, 40, 50, 60 :: nat])
       = Inr [([0, 1, 2], [3]), ([0, 1, 2, 3], [4]), ([0, 1, 2, 3, 4], [5])]"
    by code_simp
  have o: "sorted [10, 20, 30, 40, 50, 60 :: nat]" and d: "distinct [10, 20, 30, 40, 50, 60 :: nat]"
    by simp_all
  have "(0::nat) < 2" and "(2::nat) < length [([0, 1, 2], [3]), ([0, 1, 2, 3], [4]), ([0::nat, 1, 2, 3, 4], [5::nat])]"
    by simp_all
  from expanding_window_folds [OF c s o d this] c s o d show ?thesis by simp
qed

section \<open>The number of splits\<close>

lemma int_of_quotient_half: "int_of_quotient (int n) 2 = int (n div 2)"
  by (simp add: int_of_quotient_def zdiv_int)

lemma eval_models_CV_loop_log:
  "take (length (log w)) (log (snd (eval_models_CV_loop X y models cfg k w))) = log w"
proof -
  have "keeps 0 w (snd (eval_models_CV_loop X y models cfg k w))"
    using keeps_eval_models_CV_loop [of 0 w X y models cfg k] by (metis prod.collapse le0)
  then show ?thesis by (simp add: keeps_def)
qed

lemma prep_set_grows: "prep_set X dates w = (r, w') \<Longrightarrow> length (heap w) < length (heap w')"
  by (auto simp: prep_set_def alloc_def store_def split: sum.splits prod.splits)

lemma prep_set_length: "prep_set X dates w = (r, w') \<Longrightarrow> length (heap w) \<le> length (heap w')"
  using prep_set_grows [of X dates w r w'] by simp

lemma run_model_length:
  assumes "run_model announce cfg model a b c d acc w = (r, w')"
  shows "length (heap w) \<le> length (heap w')"
  using keeps_run_model [of 0 a b c announce cfg model d acc w r w'] assms
  by (simp add: keeps_def)

text \<open>Every split starts by copying \<open>X\<close>: a run of \<^verbatim>\<open>run_split\<close> leaves a new object.\<close>

lemma run_split_grows:
  assumes "run_split announce cfg model X y train test acc w = (r, w')"
  shows "length (heap w) < length (heap w')"
proof -
  obtain r1 w1 where p1: "prep_set X train w = (r1, w1)" by (cases "prep_set X train w") auto
  have g1: "length (heap w) < length (heap w1)" using p1 by (rule prep_set_grows)
  have "length (heap w1) \<le> length (heap w')"
  proof (cases r1)
    case (Inl e)
    then show ?thesis using assms p1 by (simp add: run_split_def)
  next
    case r1: (Inr train_samples)
    obtain r2 w2 where p2: "prep_set y train w1 = (r2, w2)" by (cases "prep_set y train w1") auto
    have g2: "length (heap w1) \<le> length (heap w2)" using p2 by (rule prep_set_length)
    show ?thesis
    proof (cases r2)
      case (Inl e)
      then show ?thesis using assms p1 r1 p2 g2 by (simp add: run_split_def)
    next
      case r2: (Inr train_labels)
      obtain r3 w3 where p3: "prep_set X test w2 = (r3, w3)" by (cases "prep_set X test w2") auto
      have g3: "length (heap w2) \<le> length (heap w3)" using p3 by (rule prep_set_length)
      show ?thesis
      proof (cases r3)
        case (Inl e)
        then show ?thesis using assms p1 r1 p2 r2 p3 g2 g3 by (simp add: run_split_def)
      next
        case r3: (Inr test_samples)
        obtain r4 w4 where p4: "prep_set y test w3 = (r4, w4)" by (cases "prep_set y test w3") auto
        have g4: "length (heap w3) \<le> length (heap w4)" using p4 by (rule prep_set_length)
        show ?thesis
        proof (cases r4)
          case (Inl e)
          then show ?thesis using assms p1 r1 p2 r2 p3 r3 p4 g2 g3 g4 by (simp add: run_split_def)
        next
          case r4: (Inr test_labels)
          have "run_model announce cfg model train_samples train_labels test_samples test_labels
                  acc w4 = (r, w')"
            using assms p1 r1 p2 r2 p3 r3 p4 r4 by (simp add: run_split_def)
          then have "length (heap w4) \<le> length (heap w')" by (rule run_model_length)
          then show ?thesis using g2 g3 g4 by simp
        qed
      qed
    qed
  qed
  then show ?thesis using g1 by simp
qed

text \<open>
  What the first pass of a loop leaves is still there at the end of the loop, when no
  pass removes an object or a line of the log.
\<close>

lemma for_each_first:
  assumes step: "\<And>x s w r w'. body x s w = (r, w') \<Longrightarrow> keeps 0 w w'"
    and run: "for_each body (x # xs) s w = (r, w')"
  shows "\<exists>r1 w1. body x s w = (r1, w1) \<and> keeps 0 w1 w'"
proof -
  obtain r1 w1 where b: "body x s w = (r1, w1)" by (cases "body x s w") auto
  have "keeps 0 w1 w'"
  proof (cases r1)
    case (Inl e)
    then have "w' = w1" using run b by simp
    then show ?thesis by (simp add: keeps_refl)
  next
    case (Inr s1)
    then have rest: "for_each body xs s1 w1 = (r, w')" using run b by simp
    show ?thesis
      using keeps_for_each [where n = 0 and body = body, OF _ _ rest] step by blast
  qed
  then show ?thesis using b by blast
qed

lemma cv_fold_first:
  assumes "cv_fold cfg m X y dti (train, test) acc w = (r, w')"
  shows "length (heap w) < length (heap w')
       \<and> keeps 0 (if verbose cfg
                  then say (Iteration_banner (snd (snd acc)) (length train) (length test)
                              (length dti)) w
                  else w) w'"
proof -
  let ?w0 = "if verbose cfg
             then say (Iteration_banner (snd (snd acc)) (length train) (length test) (length dti)) w
             else w"
  have rs: "run_split False cfg m X y (map ((!) dti) train) (map ((!) dti) test) acc ?w0 = (r, w')"
    using assms by (simp add: cv_fold_def Let_def)
  have "length (heap ?w0) < length (heap w')" using rs by (rule run_split_grows)
  moreover have "heap ?w0 = heap w" by (simp add: say_def)
  moreover have "keeps 0 ?w0 w'" using keeps_run_split [OF _ rs] by simp
  ultimately show ?thesis by simp
qed

lemma eval_model_CV_first:
  assumes ts: "TimeSeriesSplit k = Inr tscv"
    and sp: "tscv_split tscv (length dti) = Inr ((train, test) # folds)"
    and run: "eval_model_CV cfg X y dti cats k m res w = (r, w')"
  shows "length (heap w) < length (heap w')
       \<and> keeps 0 (if verbose cfg
                  then say (Iteration_banner 0 (length train) (length test) (length dti))
                         (say (Model_banner (model_str m)) w)
                  else w) w'"
proof -
  let ?w0 = "if verbose cfg then say (Model_banner (model_str m)) w else w"
  let ?acc = "(state m, initialize_metrics cats, 0::nat)"
  obtain r1 w1 where fe: "for_each (cv_fold cfg m X y dti) ((train, test) # folds) ?acc ?w0 = (r1, w1)"
    by (cases "for_each (cv_fold cfg m X y dti) ((train, test) # folds) ?acc ?w0") auto
  have "\<exists>r2 w2. cv_fold cfg m X y dti (train, test) ?acc ?w0 = (r2, w2) \<and> keeps 0 w2 w1"
    by (rule for_each_first [OF _ fe]) (erule keeps_cv_fold [rotated], simp)
  then obtain r2 w2 where cf: "cv_fold cfg m X y dti (train, test) ?acc ?w0 = (r2, w2)"
    and k21: "keeps 0 w2 w1"
    by blast
  have first: "length (heap ?w0) < length (heap w2)"
    using cv_fold_first [OF cf] by (rule conjunct1)
  have k02: "keeps 0 (if verbose cfg
                  then say (Iteration_banner 0 (length train) (length test) (length dti)) ?w0
                  else ?w0) w2"
    using cv_fold_first [OF cf, THEN conjunct2] by (cases "verbose cfg") simp_all
  have k1: "keeps 0 w1 w'"
    using run ts sp fe
    by (auto simp: eval_model_CV_def Let_def keeps_say keeps_refl split: sum.splits prod.splits if_splits)
  have k2: "keeps 0 w2 w'" using k21 k1 by (rule keeps_trans)
  have "length (heap w2) \<le> length (heap w')" using k2 by (rule keeps_length)
  moreover have "heap ?w0 = heap w" by (simp add: say_def)
  ultimately have grows: "length (heap w) < length (heap w')" using first by simp
  have "keeps 0 (if verbose cfg
                  then say (Iteration_banner 0 (length train) (length test) (length dti)) ?w0
                  else ?w0) w'"
    using k02 k2 by (rule keeps_trans)
  then show ?thesis using grows by (simp split: if_splits)
qed

text \<open>
  The splitter on at least four dates, asked for half as many splits as there are dates:
  the test sets are the last \<open>n div 2\<close> positions, one each.
\<close>

lemma half_split_folds:
  assumes "4 \<le> n"
  shows "TimeSeriesSplit (int (n div 2)) = Inr (int (n div 2))
       \<and> tscv_split (int (n div 2)) n
           = Inr (map (\<lambda>i. ([0..<n - n div 2 + i], [n - n div 2 + i])) [0..<n div 2])"
proof -
  define k where "k = n div 2"
  have k2: "2 \<le> k" and le: "k + 1 \<le> n" and lt: "n < 2 * (k + 1)"
    using assms by (simp_all add: k_def)
  have c: "TimeSeriesSplit (int k) = Inr (int k)" using k2 by (simp add: TimeSeriesSplit_def)
  obtain folds where sp: "tscv_split (int k) n = Inr folds"
    using le by (simp add: tscv_split_def Let_def)
  from tscv_split_folds [OF c sp] obtain ts where ts0: "0 < ts" and tot: "(k + 1) * ts \<le> n"
    and folds: "folds = map (\<lambda>i. ([0..<n - k * ts + i * ts],
                                 [n - k * ts + i * ts..<n - k * ts + i * ts + ts])) [0..<k]"
    by auto
  have "ts < 2"
  proof (rule ccontr)
    assume "\<not> ts < 2"
    then have "(k + 1) * 2 \<le> (k + 1) * ts" by (intro mult_le_mono2) simp
    then show False using tot lt by simp
  qed
  then have ts: "ts = 1" using ts0 by simp
  have "folds = map (\<lambda>i. ([0..<n - k + i], [n - k + i])) [0..<k]"
    unfolding folds ts by simp
  then show ?thesis using c sp unfolding k_def by simp
qed

text \<open>
  C5, as amended.  With \<open>n\<close> the number of dates of \<open>X\<close> (the length of level 0), for
  \<open>n_splits\<close> unset or larger than \<open>n\<close>: \<^verbatim>\<open>eval_models_CV\<close> prints a message with
  \<open>floor (n / 2)\<close>, the number of splits or the warning, which is the next entry of the
  log, and goes on exactly as when \<open>n_splits = floor (n / 2)\<close> is asked for; the clamp
  raises nothing.  For at least four dates the evaluation continues with that value: the
  splitter accepts it and yields \<open>floor (n / 2)\<close> folds, each testing one of the last
  dates, and with a model to evaluate the first fold is entered, so its copy of \<open>X\<close> is
  made and, when \<^verbatim>\<open>verbose\<close>, the log goes on with the banner of the model and the
  line of iteration 0 with \<open>n - floor (n / 2)\<close> train dates and one test date.  For fewer
  than four dates the value is below 2: with a model to evaluate, the splitter refuses it
  and the run ends with \<^verbatim>\<open>ValueError\<close> right after the message.
\<close>

theorem n_splits_default_and_clamp:
  fixes models :: "'m model list"
  assumes n: "n = length (levels0 (heap w ! X))"
    and req: "requested = None \<or> (\<exists>r. requested = Some r \<and> int n < r)"
    and msg: "msg = (case requested of None \<Rightarrow> Running_splits (int (n div 2))
                                      | Some r \<Rightarrow> Warning_n_splits (int (n div 2)))"
  shows "eval_models_CV (Some X) (Some y) models cfg requested w
           = eval_models_CV (Some X) (Some y) models cfg (Some (int (n div 2))) (say msg w)
       \<and> take (Suc (length (log w)))
            (log (snd (eval_models_CV (Some X) (Some y) models cfg requested w)))
           = log w @ [Printed msg]
       \<and> (4 \<le> n \<longrightarrow>
            TimeSeriesSplit (int (n div 2)) = Inr (int (n div 2))
          \<and> tscv_split (int (n div 2)) n
              = Inr (map (\<lambda>i. ([0..<n - n div 2 + i], [n - n div 2 + i])) [0..<n div 2])
          \<and> (\<forall>m ms. models = m # ms \<longrightarrow>
                length (heap w)
                  < length (heap (snd (eval_models_CV (Some X) (Some y) models cfg requested w)))
              \<and> (verbose cfg \<longrightarrow>
                   take (length (log w) + 3)
                     (log (snd (eval_models_CV (Some X) (Some y) models cfg requested w)))
                   = log w @ [Printed msg, Printed (Model_banner (model_str m)),
                              Printed (Iteration_banner 0 (n - n div 2) 1 n)])))
       \<and> (n < 4 \<longrightarrow>
            (\<forall>m ms. models = m # ms \<longrightarrow>
               eval_models_CV (Some X) (Some y) models cfg requested w
                 = (Inl ValueError, say msg w)))"
proof -
  define k where "k = n div 2"
  define w2 where "w2 = say msg w"
  define dti where "dti = levels0 (heap w ! X)"
  define cats where "cats = levels1 (heap w ! X)"
  have half: "(n < n div 2) = False" by arith
  have h2: "heap w2 = heap w" and l2: "log w2 = log w @ [Printed msg]"
    by (simp_all add: w2_def say_def)
  have len: "length dti = n" by (simp add: dti_def n)
  have loop: "eval_models_CV (Some X) (Some y) ms cfg requested w
                = eval_models_CV_loop X y ms cfg (int k) w2" for ms :: "'m model list"
    using req half
    by (auto simp: eval_models_CV_def n [symmetric] Let_def int_of_quotient_half msg k_def w2_def)
  have asked: "eval_models_CV (Some X) (Some y) ms cfg (Some (int k)) w2
                = eval_models_CV_loop X y ms cfg (int k) w2" for ms :: "'m model list"
    using half by (simp add: eval_models_CV_def h2 n [symmetric] Let_def k_def)
  have a: "eval_models_CV (Some X) (Some y) models cfg requested w
           = eval_models_CV (Some X) (Some y) models cfg (Some (int k)) w2"
    by (simp only: loop asked)
  have b: "take (Suc (length (log w)))
            (log (snd (eval_models_CV (Some X) (Some y) models cfg requested w)))
           = log w @ [Printed msg]"
    using eval_models_CV_loop_log [of w2 X y models cfg "int k"] by (simp add: loop l2)
  have body: "eval_models_CV (Some X) (Some y) (m # ms) cfg requested w
                = for_each (eval_model_CV cfg X y dti cats (int k)) (m # ms) Map.empty w2"
    for m :: "'m model" and ms
    by (simp only: loop eval_models_CV_loop_def Let_def h2 dti_def cats_def)
  have many: "length (heap w)
                  < length (heap (snd (eval_models_CV (Some X) (Some y) (m # ms) cfg requested w)))
              \<and> (verbose cfg \<longrightarrow>
                   take (length (log w) + 3)
                     (log (snd (eval_models_CV (Some X) (Some y) (m # ms) cfg requested w)))
                   = log w @ [Printed msg, Printed (Model_banner (model_str m)),
                              Printed (Iteration_banner 0 (n - k) 1 n)])"
    if big: "4 \<le> n" for m :: "'m model" and ms
  proof -
    obtain r w' where run: "for_each (eval_model_CV cfg X y dti cats (int k)) (m # ms) Map.empty w2
                              = (r, w')"
      by (cases "for_each (eval_model_CV cfg X y dti cats (int k)) (m # ms) Map.empty w2") auto
    have "\<exists>r1 w1. eval_model_CV cfg X y dti cats (int k) m Map.empty w2 = (r1, w1)
                 \<and> keeps 0 w1 w'"
      by (rule for_each_first [OF _ run]) (erule keeps_eval_model_CV [rotated], simp)
    then obtain r1 w1 where em: "eval_model_CV cfg X y dti cats (int k) m Map.empty w2 = (r1, w1)"
      and k1: "keeps 0 w1 w'"
      by blast
    have ts: "TimeSeriesSplit (int k) = Inr (int k)"
      using half_split_folds [OF big] by (simp add: k_def)
    have "0 < k" using big by (simp add: k_def)
    then have "[0..<k] = 0 # [1..<k]" by (simp add: upt_conv_Cons)
    then have sp: "tscv_split (int k) (length dti)
                    = Inr (([0..<n - k], [n - k]) # map (\<lambda>i. ([0..<n - k + i], [n - k + i])) [1..<k])"
      using half_split_folds [OF big] by (simp add: k_def len)
    have g: "length (heap w2) < length (heap w1)"
      using eval_model_CV_first [OF ts sp em] by (rule conjunct1)
    have kk: "keeps 0 (if verbose cfg
                  then say (Iteration_banner 0 (n - k) 1 n) (say (Model_banner (model_str m)) w2)
                  else w2) w1"
      using eval_model_CV_first [OF ts sp em, THEN conjunct2] by (cases "verbose cfg") (simp_all add: len)
    have "length (heap w1) \<le> length (heap w')" using k1 by (rule keeps_length)
    then have grows: "length (heap w) < length (heap w')" using g h2 by simp
    have lines: "take (length (log w) + 3) (log w')
                   = log w @ [Printed msg, Printed (Model_banner (model_str m)),
                              Printed (Iteration_banner 0 (n - k) 1 n)]" if "verbose cfg"
    proof -
      let ?w3 = "say (Iteration_banner 0 (n - k) 1 n) (say (Model_banner (model_str m)) w2)"
      have "keeps 0 ?w3 w1" using kk that by simp
      then have "keeps 0 ?w3 w'" using k1 by (rule keeps_trans)
      then have "take (length (log ?w3)) (log w') = log ?w3" by (simp add: keeps_def)
      then show ?thesis by (simp add: say_def l2 numeral_3_eq_3)
    qed
    show ?thesis unfolding body run using grows lines by simp
  qed
  have few: "eval_models_CV (Some X) (Some y) (m # ms) cfg requested w = (Inl ValueError, say msg w)"
    if "n < 4" for m :: "'m model" and ms
  proof -
    have "k \<le> 1" using that by (simp add: k_def)
    then have "TimeSeriesSplit (int k) = Inl ValueError" by (simp add: TimeSeriesSplit_def)
    then show ?thesis unfolding body by (simp add: eval_model_CV_def w2_def)
  qed
  show ?thesis
    using a b half_split_folds [of n] many few unfolding k_def w2_def by blast
qed

theorem n_splits_default_and_clamp_witness:
  "(6::nat) = length (levels0 (heap demo_world ! 0)) \<and> int 6 < 9
   \<and> eval_models_CV (Some 0) (Some 1) [demo_model] (demo_config\<lparr>verbose := True\<rparr>) (Some 9)
         demo_world
       = eval_models_CV (Some 0) (Some 1) [demo_model] (demo_config\<lparr>verbose := True\<rparr>) (Some 3)
           (say (Warning_n_splits 3) demo_world)
   \<and> length (heap demo_world)
       < length (heap (snd (eval_models_CV (Some 0) (Some 1) [demo_model]
                              (demo_config\<lparr>verbose := True\<rparr>) (Some 9) demo_world)))
   \<and> take 3 (log (snd (eval_models_CV (Some 0) (Some 1) [demo_model]
                          (demo_config\<lparr>verbose := True\<rparr>) (Some 9) demo_world)))
       = [Printed (Warning_n_splits 3), Printed (Model_banner ''Threshold()''),
          Printed (Iteration_banner 0 3 1 6)]
   \<and> log (snd (eval_models_CV (Some 0) (Some 1) [demo_model]
                  (demo_config\<lparr>verbose := True\<rparr>) (Some 9) demo_world))
       = [Printed (Warning_n_splits 3), Printed (Model_banner ''Threshold()''),
          Printed (Iteration_banner 0 3 1 6), Fit_called ''threshold'', Predict_called ''threshold'',
          Printed (Iteration_banner 1 4 1 6), Fit_called ''threshold'', Predict_called ''threshold'',
          Printed (Iteration_banner 2 5 1 6), Fit_called ''threshold'', Predict_called ''threshold'',
          Printed Final_report]"
proof -
  let ?cfg = "demo_config\<lparr>verbose := True\<rparr>"
  let ?run = "eval_models_CV (Some 0) (Some 1) [demo_model] ?cfg (Some 9) demo_world"
  have n: "(6::nat) = length (levels0 (heap demo_world ! 0))"
    by (simp add: demo_world_def demo_X_def)
  have req: "Some (9::int) = None \<or> (\<exists>r. Some (9::int) = Some r \<and> int 6 < r)" by simp
  have msg: "Warning_n_splits 3 = (case Some (9::int) of None \<Rightarrow> Running_splits (int (6 div 2))
                                      | Some r \<Rightarrow> Warning_n_splits (int (6 div 2)))"
    by simp
  note t = n_splits_default_and_clamp [OF n req msg, of 1 "[demo_model]" ?cfg]
  have v: "verbose ?cfg" by simp
  have l: "log demo_world = []" by (simp add: demo_world_def)
  have s: "model_str demo_model = ''Threshold()''" by (simp add: demo_model_def)
  have same: "?run = eval_models_CV (Some 0) (Some 1) [demo_model] ?cfg (Some 3)
                       (say (Warning_n_splits 3) demo_world)"
    using t [THEN conjunct1] by simp
  have big: "(4::nat) \<le> 6" by simp
  note cont = t [THEN conjunct2, THEN conjunct2, THEN conjunct1, rule_format, OF big,
                 THEN conjunct2, THEN conjunct2, rule_format, OF refl]
  have grows: "length (heap demo_world) < length (heap (snd ?run))"
    using cont [THEN conjunct1] .
  have lines: "take 3 (log (snd ?run))
       = [Printed (Warning_n_splits 3), Printed (Model_banner ''Threshold()''),
          Printed (Iteration_banner 0 3 1 6)]"
    using cont [THEN conjunct2, rule_format, OF v] by (simp add: l s)
  have whole: "log (snd ?run)
       = [Printed (Warning_n_splits 3), Printed (Model_banner ''Threshold()''),
          Printed (Iteration_banner 0 3 1 6), Fit_called ''threshold'', Predict_called ''threshold'',
          Printed (Iteration_banner 1 4 1 6), Fit_called ''threshold'', Predict_called ''threshold'',
          Printed (Iteration_banner 2 5 1 6), Fit_called ''threshold'', Predict_called ''threshold'',
          Printed Final_report]"
    by code_simp
  show ?thesis using n same grows lines whole by simp
qed

text \<open>
  Without the bound on the number of dates the evaluation does not continue with the
  clamped value.  On three dates that value is 1, which the splitter refuses: with
  \<open>n_splits = 5\<close>, and also with \<open>n_splits\<close> unset, the run ends with \<^verbatim>\<open>ValueError\<close>
  after the message; no object is made and no model is fit.
\<close>

theorem clamped_n_splits_refused:
  "length (levels0 (heap small_world ! 0)) = 3
   \<and> eval_models_CV (Some 0) (Some 1) [demo_model] demo_config (Some 5) small_world
       = (Inl ValueError, say (Warning_n_splits 1) small_world)
   \<and> eval_models_CV (Some 0) (Some 1) [demo_model] demo_config None small_world
       = (Inl ValueError, say (Running_splits 1) small_world)"
  by (simp add: eval_models_CV_def eval_models_CV_loop_def eval_model_CV_def TimeSeriesSplit_def
        int_of_quotient_def small_world_def small_X_def say_def Let_def)

section \<open>Splits without test labels\<close>

lemma inr_projr: "\<not> isl x \<Longrightarrow> x = Inr (projr x)"
  by (cases x) simp_all

text \<open>
  The guard of lines 64 and 149 tests the test labels that \<^verbatim>\<open>_prep_set\<close> returned.
  \<^verbatim>\<open>_prep_set\<close> returns a frame without rows only for an empty list of dates: for a
  list with a date that has no row it raises.
\<close>

lemma loc_dates_no_rows:
  assumes "loc_dates f dates = Inr selected" and "rows selected = []"
  shows "dates = []"
proof (cases dates)
  case Nil
  then show ?thesis .
next
  case (Cons d ds)
  then have "rows_at f d \<noteq> []" and "rows selected = concat (map (rows_at f) (d # ds))"
    using assms(1) by (auto simp: loc_dates_def split: if_splits)
  then show ?thesis using assms(2) by simp
qed

lemma loc_dates_missing: "d \<in> set dates \<Longrightarrow> rows_at f d = [] \<Longrightarrow> loc_dates f dates = Inl KeyError"
  by (auto simp: loc_dates_def list_ex_iff)

lemma prep_set_cases:
  assumes "X < length (heap w)"
  shows "prep_set X dates w =
           (case loc_dates (heap w ! X) dates of
              Inl e \<Rightarrow> (Inl e, w\<lparr>heap := heap w @ [heap w ! X]\<rparr>)
            | Inr f \<Rightarrow> (Inr (Suc (length (heap w))),
                        w\<lparr>heap := heap w @ [heap w ! X, remove_unused_levels f]\<rparr>))"
  using assms
  by (simp add: prep_set_def alloc_def store_def nth_append list_update_append split: sum.splits)

text \<open>
  A split whose test dates have a date without label row: when the three subsets before
  the test labels are taken, the split raises \<^verbatim>\<open>KeyError\<close>, and the log is as it was.
\<close>

lemma run_split_missing_labels:
  assumes X: "X < length (heap w)" and y: "y < length (heap w)"
    and a: "loc_dates (heap w ! X) train = Inr a" and b: "loc_dates (heap w ! y) train = Inr b"
    and c: "loc_dates (heap w ! X) test = Inr c"
    and d: "d \<in> set test" and none: "rows_at (heap w ! y) d = []"
  shows "fst (run_split announce cfg model X y train test acc w) = Inl KeyError
       \<and> log (snd (run_split announce cfg model X y train test acc w)) = log w"
proof -
  have e: "loc_dates (heap w ! y) test = Inl KeyError" using d none by (rule loc_dates_missing)
  show ?thesis
    using X y by (simp add: run_split_def prep_set_cases nth_append a b c e)
qed

text \<open>
  C6.  A fold whose test-label set is empty is not skipped when it has test dates: the
  harness raises before it reaches its guard.  \<open>gap_y\<close> has no label row on the last
  date, 5.  In the cross validation of the six dates of \<open>demo_X\<close>
  with the number of splits unset, the third fold tests date 5: its test-label set is
  empty.  The first two folds are fit and scored; on the third, \<^verbatim>\<open>_prep_set(y, ...)\<close>
  raises \<^verbatim>\<open>KeyError\<close> (line 170) before the guard of line 149 is reached, and the run
  ends with that exception instead of a report.  The single split at 84 percent has the
  test dates \<open>[5]\<close> and raises in the same way (line 62), before anything is fit.  The
  guard does skip a split whose list of test dates is empty: with the labels \<open>demo_y\<close>,
  which have a row on every date, the single split at 100 percent returns a report, and
  the model is not called.
\<close>

theorem missing_test_labels_raise:
  "rows_at gap_y 5 = []
   \<and> isl (fst (eval_models_CV (Some 0) (Some 1) [demo_model] demo_config None gap_world))
   \<and> projl (fst (eval_models_CV (Some 0) (Some 1) [demo_model] demo_config None gap_world))
       = KeyError
   \<and> log (snd (eval_models_CV (Some 0) (Some 1) [demo_model] demo_config None gap_world))
       = [Printed (Running_splits 3), Fit_called ''threshold'', Predict_called ''threshold'',
          Fit_called ''threshold'', Predict_called ''threshold'']
   \<and> snd (split_percent (levels0 demo_X) 84) = [5]
   \<and> isl (fst (eval_models (Some 0) (Some 1) [demo_model] demo_config 84 gap_world))
   \<and> projl (fst (eval_models (Some 0) (Some 1) [demo_model] demo_config 84 gap_world)) = KeyError
   \<and> log (snd (eval_models (Some 0) (Some 1) [demo_model] demo_config 84 gap_world)) = []
   \<and> snd (split_percent (levels0 demo_X) 100) = []
   \<and> \<not> isl (fst (eval_models (Some 0) (Some 1) [demo_model] demo_config 100 demo_world))
   \<and> log (snd (eval_models (Some 0) (Some 1) [demo_model] demo_config 100 demo_world)) = []"
  by code_simp

section \<open>One accumulator per model\<close>

lemma dom_initialize_metrics: "dom (initialize_metrics categories) = set categories"
  by (auto simp: initialize_metrics_def split: if_splits)

lemma dom_get_final_metrics: "dom (get_final_metrics metrics) = dom metrics"
  by (auto simp: get_final_metrics_def)

lemma dom_get_metrics_with_shift:
  assumes "get_metrics_with_shift predicted actual category metrics w = Inr metrics'"
  shows "dom metrics' = dom metrics"
proof -
  from assms obtain m m' where "metrics category = Some m" and "metrics' = metrics(category \<mapsto> m')"
    by (auto simp: get_metrics_with_shift_def split: option.splits prod.splits)
  then show ?thesis by (simp add: insert_absorb domI)
qed

lemma dom_get_metrics_for_one_category:
  assumes "get_metrics_for_one_category dataset lc pc vc w category metrics = Inr metrics'"
  shows "dom metrics' = dom metrics"
proof -
  from assms obtain predicted actual metrics1 m1 m2 where
    g: "get_metrics_with_shift predicted actual category metrics w = Inr metrics1"
    and m1: "metrics1 category = Some m1"
    and r: "metrics' = metrics1(category \<mapsto> m2)"
    by (auto simp: get_metrics_for_one_category_def Let_def split: sum.splits option.splits)
  have "dom metrics' = dom metrics1" using m1 r by (simp add: insert_absorb domI)
  then show ?thesis using dom_get_metrics_with_shift [OF g] by simp
qed

lemma dom_accumulate_categories:
  "accumulate_categories results lc pc vc w cs metrics = Inr metrics' \<Longrightarrow> dom metrics' = dom metrics"
proof (induction cs arbitrary: metrics)
  case Nil
  then show ?case by simp
next
  case (Cons c cs)
  from Cons.prems obtain m1 where
    g: "get_metrics_for_one_category results lc pc vc w c metrics = Inr m1"
    and a: "accumulate_categories results lc pc vc w cs m1 = Inr metrics'"
    by (auto split: sum.splits)
  show ?case using Cons.IH [OF a] dom_get_metrics_for_one_category [OF g] by simp
qed

lemma dom_get_evaluation_metrics:
  assumes "get_evaluation_metrics tv pred lab (Some metrics) vc lc pc w = Inr metrics'"
  shows "dom metrics' = dom metrics"
proof -
  from assms obtain results where
    "accumulate_categories results lc pc vc w (levels1 results) metrics = Inr metrics'"
    by (auto simp: get_evaluation_metrics_def Let_def split: sum.splits)
  then show ?thesis by (rule dom_accumulate_categories)
qed

lemma dom_run_model:
  assumes "run_model announce cfg model a b c d (st, metrics, counter) w = (Inr (st', metrics', counter'), w')"
  shows "dom metrics' = dom metrics"
proof (cases "0 < length (rows (heap w ! d))")
  case False
  then show ?thesis using assms by (simp add: run_model_def)
next
  case True
  from assms True obtain tv pred lab where
    "get_evaluation_metrics tv pred lab (Some metrics) (value_col cfg) (label_col cfg)
       (prediction_col cfg) (window_size cfg) = Inr metrics'"
    by (auto simp: run_model_def Let_def split: sum.splits prod.splits)
  then show ?thesis by (rule dom_get_evaluation_metrics)
qed

lemma dom_run_split:
  assumes "run_split announce cfg model X y train test (st, metrics, counter) w = (Inr (st', metrics', counter'), w')"
  shows "dom metrics' = dom metrics"
proof -
  from assms obtain a b c d w4 where
    "run_model announce cfg model a b c d (st, metrics, counter) w4 = (Inr (st', metrics', counter'), w')"
    by (auto simp: run_split_def split: sum.splits prod.splits)
  then show ?thesis by (rule dom_run_model)
qed

lemma dom_cv_folds:
  "for_each (cv_fold cfg model X y datetimeindex) folds (st, metrics, counter) w
     = (Inr (st', metrics', counter'), w') \<Longrightarrow> dom metrics' = dom metrics"
proof (induction folds arbitrary: st metrics counter w)
  case Nil
  then show ?case by simp
next
  case (Cons tt folds)
  obtain r1 w1 where b: "cv_fold cfg model X y datetimeindex tt (st, metrics, counter) w = (r1, w1)"
    by (cases "cv_fold cfg model X y datetimeindex tt (st, metrics, counter) w") auto
  show ?case
  proof (cases r1)
    case (Inl e)
    then show ?thesis using Cons.prems b by simp
  next
    case (Inr acc1)
    obtain st1 metrics1 counter1 where acc1: "acc1 = (st1, metrics1, counter1)" by (cases acc1) auto
    obtain train test where tt: "tt = (train, test)" by (cases tt) auto
    obtain w0 where "run_split False cfg model X y (map ((!) datetimeindex) train)
        (map ((!) datetimeindex) test) (st, metrics, counter) w0 = (Inr (st1, metrics1, counter1), w1)"
      using b Inr acc1 by (auto simp: cv_fold_def tt Let_def)
    then have "dom metrics1 = dom metrics" by (rule dom_run_split)
    moreover have "for_each (cv_fold cfg model X y datetimeindex) folds (st1, metrics1, counter1) w1
        = (Inr (st', metrics', counter'), w')"
      using Cons.prems b Inr acc1 by simp
    ultimately show ?thesis using Cons.IH by metis
  qed
qed

lemma same_inputs_keeps:
  assumes "same_inputs X y w v" and "keeps (length (heap w)) w w'" and "keeps (length (heap v)) v v'"
  shows "same_inputs X y w' v'"
  using assms keeps_nth [OF assms(2)] keeps_nth [OF assms(3)] keeps_length [OF assms(2)]
    keeps_length [OF assms(3)]
  by (simp add: same_inputs_def)

lemma same_inputs_say: "same_inputs X y w v \<Longrightarrow> same_inputs X y (say m w) (say m' v)"
  by (simp add: same_inputs_def say_def)

lemma run_split_outcome:
  assumes X: "X < length (heap w)" and y: "y < length (heap w)"
  shows "fst (run_split announce cfg model X y train test acc w) =
    (case loc_dates (heap w ! X) train of Inl e \<Rightarrow> Inl e | Inr a \<Rightarrow>
     case loc_dates (heap w ! y) train of Inl e \<Rightarrow> Inl e | Inr b \<Rightarrow>
     case loc_dates (heap w ! X) test of Inl e \<Rightarrow> Inl e | Inr c \<Rightarrow>
     case loc_dates (heap w ! y) test of Inl e \<Rightarrow> Inl e | Inr d \<Rightarrow>
       if rows d = [] then Inr acc
       else case fit model (fst acc) (remove_unused_levels a) (remove_unused_levels b) of
              Inl e \<Rightarrow> Inl e
            | Inr (st1, fs, fl) \<Rightarrow>
               (case predict model st1 (remove_unused_levels c) of
                  Inl e \<Rightarrow> Inl e
                | Inr (st2, ps, pred) \<Rightarrow>
                   (case get_evaluation_metrics ps pred (remove_unused_levels d)
                           (Some (fst (snd acc))) (value_col cfg) (label_col cfg)
                           (prediction_col cfg) (window_size cfg) of
                      Inl e \<Rightarrow> Inl e
                    | Inr m' \<Rightarrow> Inr (st2, m', snd (snd acc) + 1))))"
proof -
  obtain st metrics counter where acc: "acc = (st, metrics, counter)" by (cases acc) auto
  have rd: "\<And>d. rows (remove_unused_levels d) = rows d" by (simp add: remove_unused_levels_def)
  show ?thesis
    using X y
    by (simp add: run_split_def prep_set_cases nth_append run_model_def acc rd Let_def
          called_def say_def store_def list_update_append
          split: sum.splits prod.splits)
qed

lemma run_split_same:
  assumes "same_inputs X y w v"
  shows "fst (run_split announce cfg model X y train test acc w)
           = fst (run_split announce cfg model X y train test acc v)"
proof -
  have Xw: "X < length (heap w)" and yw: "y < length (heap w)"
    and Xv: "X < length (heap v)" and yv: "y < length (heap v)"
    and eX: "heap w ! X = heap v ! X" and ey: "heap w ! y = heap v ! y"
    using assms by (simp_all add: same_inputs_def)
  show ?thesis
    unfolding run_split_outcome [OF Xw yw] run_split_outcome [OF Xv yv] eX ey ..
qed

lemma same_inputs_step:
  assumes "same_inputs X y w v" and "keeps (length (heap w)) w w'"
  shows "same_inputs X y w' v"
  using assms keeps_nth [OF assms(2)] keeps_length [OF assms(2)]
  by (simp add: same_inputs_def)

lemma cv_folds_same:
  "same_inputs X y w v \<Longrightarrow>
   fst (for_each (cv_fold cfg model X y datetimeindex) folds acc w)
     = fst (for_each (cv_fold cfg model X y datetimeindex) folds acc v)"
proof (induction folds arbitrary: acc w v)
  case Nil
  then show ?case by simp
next
  case (Cons tt folds)
  obtain train test where tt: "tt = (train, test)" by (cases tt) auto
  obtain r1 w1 where bw: "cv_fold cfg model X y datetimeindex tt acc w = (r1, w1)"
    by (cases "cv_fold cfg model X y datetimeindex tt acc w") auto
  obtain r2 v1 where bv: "cv_fold cfg model X y datetimeindex tt acc v = (r2, v1)"
    by (cases "cv_fold cfg model X y datetimeindex tt acc v") auto
  have "fst (cv_fold cfg model X y datetimeindex tt acc w)
          = fst (cv_fold cfg model X y datetimeindex tt acc v)"
    unfolding cv_fold_def tt prod.case Let_def
    by (intro run_split_same) (simp add: Cons.prems same_inputs_say)
  then have r: "r2 = r1" using bw bv by simp
  have k1: "keeps (length (heap w)) w w1" using bw keeps_cv_fold by blast
  have k2: "keeps (length (heap v)) v v1" using bv keeps_cv_fold by blast
  have s1: "same_inputs X y w1 v1" using Cons.prems k1 k2 by (rule same_inputs_keeps)
  show ?case
  proof (cases r1)
    case (Inl e)
    then show ?thesis using bw bv r by simp
  next
    case (Inr acc1)
    then show ?thesis using bw bv r Cons.IH [OF s1] by simp
  qed
qed

lemma eval_model_single_outcome:
  "fst (eval_model_single cfg X y train test categories model res w) =
     (case fst (run_split True cfg model X y train test
                  (state model, initialize_metrics categories, 0)
                  (if verbose cfg then say (Model_banner (model_str model)) w else w)) of
        Inl e \<Rightarrow> Inl e
      | Inr acc \<Rightarrow> Inr (res(model_name model \<mapsto> get_final_metrics (fst (snd acc)))))"
  by (simp add: eval_model_single_def Let_def split: prod.splits sum.splits)

lemma eval_model_CV_outcome:
  "fst (eval_model_CV cfg X y datetimeindex categories n_splits model res w) =
     (case TimeSeriesSplit n_splits of
        Inl e \<Rightarrow> Inl e
      | Inr tscv \<Rightarrow>
         (case tscv_split tscv (length datetimeindex) of
            Inl e \<Rightarrow> Inl e
          | Inr folds \<Rightarrow>
             (case fst (for_each (cv_fold cfg model X y datetimeindex) folds
                          (state model, initialize_metrics categories, 0)
                          (if verbose cfg then say (Model_banner (model_str model)) w else w)) of
                Inl e \<Rightarrow> Inl e
              | Inr acc \<Rightarrow> Inr (res(model_name model \<mapsto> get_final_metrics (fst (snd acc)))))))"
  by (simp add: eval_model_CV_def Let_def split: prod.splits sum.splits)

text \<open>The loop over the models, for a body whose report does not depend on the world.\<close>

lemma models_loop_entries:
  assumes body: "\<And>m res w. same_inputs X y w v \<Longrightarrow>
        fst (body m res w) = (case rep m of Inl e \<Rightarrow> Inl e | Inr r \<Rightarrow> Inr (res(model_name m \<mapsto> r)))"
    and kept: "\<And>m res w. keeps (length (heap w)) w (snd (body m res w))"
  shows "same_inputs X y w v \<Longrightarrow> for_each body models res w = (Inr res', w') \<Longrightarrow>
         distinct (map model_name models) \<Longrightarrow>
         (\<forall>m\<in>set models. \<exists>r. rep m = Inr r \<and> res' (model_name m) = Some r)
         \<and> (\<forall>n. n \<notin> model_name ` set models \<longrightarrow> res' n = res n)"
proof (induction models arbitrary: res w)
  case Nil
  then show ?case by simp
next
  case (Cons m ms)
  obtain r1 w1 where b: "body m res w = (r1, w1)" by (cases "body m res w") auto
  have f: "r1 = (case rep m of Inl e \<Rightarrow> Inl e | Inr r \<Rightarrow> Inr (res(model_name m \<mapsto> r)))"
    using body [OF Cons.prems(1), of m res] b by simp
  obtain res1 where r1: "r1 = Inr res1" and rest: "for_each body ms res1 w1 = (Inr res', w')"
    using Cons.prems(2) b by (cases r1) auto
  obtain r where rep: "rep m = Inr r" and res1: "res1 = res(model_name m \<mapsto> r)"
    using f r1 by (cases "rep m") auto
  have "keeps (length (heap w)) w w1" using kept [of w m res] b by simp
  then have s1: "same_inputs X y w1 v" using Cons.prems(1) same_inputs_step by blast
  have d: "distinct (map model_name ms)" and nm: "model_name m \<notin> model_name ` set ms"
    using Cons.prems(3) by auto
  have ih: "(\<forall>m\<in>set ms. \<exists>r. rep m = Inr r \<and> res' (model_name m) = Some r)
         \<and> (\<forall>n. n \<notin> model_name ` set ms \<longrightarrow> res' n = res1 n)"
    using Cons.IH [OF s1 rest d] .
  have "res' (model_name m) = Some r" using ih nm res1 by simp
  moreover have "\<forall>n. n \<notin> model_name ` set (m # ms) \<longrightarrow> res' n = res n"
    using ih res1 by simp
  ultimately show ?case using ih rep by simp
qed

lemma for_each_single:
  "fst (for_each body [x] s w) = fst (body x s w)"
  by (simp split: prod.splits sum.splits)

lemma same_inputs_refl: "X < length (heap w) \<Longrightarrow> y < length (heap w) \<Longrightarrow> same_inputs X y w w"
  by (simp add: same_inputs_def)

lemma single_split_reports:
  assumes X: "X < length (heap w)" and y: "y < length (heap w)"
    and m: "m \<in> set models" and d: "distinct (map model_name models)"
    and run: "eval_models (Some X) (Some y) models cfg train_percent w = (Inr res, w')"
  shows "\<exists>r. res (model_name m) = Some r \<and> dom r = set (levels1 (heap w ! X))
           \<and> fst (eval_models (Some X) (Some y) [m] cfg train_percent w)
               = Inr [model_name m \<mapsto> r]"
proof -
  obtain train test where sp: "split_percent (levels0 (heap w ! X)) train_percent = (train, test)"
    by (cases "split_percent (levels0 (heap w ! X)) train_percent") auto
  define cats where "cats = levels1 (heap w ! X)"
  define body :: "'a model \<Rightarrow> _" where "body = eval_model_single cfg X y train test cats"
  define rep where "rep = (\<lambda>m :: 'a model.
     case fst (run_split True cfg m X y train test (state m, initialize_metrics cats, 0)
                 (if verbose cfg then say (Model_banner (model_str m)) w else w)) of
       Inl e \<Rightarrow> Inl e
     | Inr acc \<Rightarrow> Inr (get_final_metrics (fst (snd acc))))"
  have b: "fst (body m res w1) = (case rep m of Inl e \<Rightarrow> Inl e | Inr r \<Rightarrow> Inr (res(model_name m \<mapsto> r)))"
    if "same_inputs X y w1 w" for m res w1
  proof -
    have "same_inputs X y (if verbose cfg then say (Model_banner (model_str m)) w1 else w1)
            (if verbose cfg then say (Model_banner (model_str m)) w else w)"
      using that by (simp add: same_inputs_say)
    then have "fst (run_split True cfg m X y train test (state m, initialize_metrics cats, 0)
                  (if verbose cfg then say (Model_banner (model_str m)) w1 else w1))
             = fst (run_split True cfg m X y train test (state m, initialize_metrics cats, 0)
                  (if verbose cfg then say (Model_banner (model_str m)) w else w))"
      by (rule run_split_same)
    then show ?thesis
      unfolding body_def rep_def eval_model_single_outcome by (simp split: sum.splits)
  qed
  have k: "keeps (length (heap w1)) w1 (snd (body m res w1))" for m res w1
    unfolding body_def using keeps_eval_model_single [of "length (heap w1)" w1]
    by (metis order_refl prod.collapse)
  have loop: "for_each body models Map.empty w = (Inr res, w')"
    using run sp by (simp add: eval_models_def Let_def body_def cats_def)
  have sw: "same_inputs X y w w" using X y by (rule same_inputs_refl)
  from models_loop_entries [of X y w body rep, OF b k sw loop d] m
  obtain r where r: "rep m = Inr r" and e: "res (model_name m) = Some r" by blast
  have solo: "fst (eval_models (Some X) (Some y) [m] cfg train_percent w) = Inr [model_name m \<mapsto> r]"
  proof -
    have "fst (eval_models (Some X) (Some y) [m] cfg train_percent w)
            = fst (for_each body [m] Map.empty w)"
      by (simp only: eval_models_def Let_def sp body_def cats_def option.case prod.case)
    also have "\<dots> = fst (body m Map.empty w)" by (rule for_each_single)
    also have "\<dots> = Inr [model_name m \<mapsto> r]" using b [OF sw, of m Map.empty] r by simp
    finally show ?thesis .
  qed
  obtain acc where a: "fst (run_split True cfg m X y train test (state m, initialize_metrics cats, 0)
                 (if verbose cfg then say (Model_banner (model_str m)) w else w)) = Inr acc"
    and ra: "r = get_final_metrics (fst (snd acc))"
    using r unfolding rep_def by (auto split: sum.splits)
  obtain st metrics' counter where acc: "acc = (st, metrics', counter)" by (cases acc) auto
  have "dom metrics' = dom (initialize_metrics cats)"
    using a acc dom_run_split by (metis prod.collapse)
  then have "dom r = set (levels1 (heap w ! X))"
    by (simp add: ra acc dom_get_final_metrics dom_initialize_metrics cats_def)
  then show ?thesis using e solo by blast
qed

lemma eval_models_CV_settled:
  "\<exists>k w2. heap w2 = heap w
     \<and> (\<forall>ms :: 'm model list. eval_models_CV (Some X) (Some y) ms cfg n_splits w
                = eval_models_CV_loop X y ms cfg k w2)"
proof -
  define n where "n = length (levels0 (heap w ! X))"
  define kw1 where "kw1 = (case n_splits of
                      None \<Rightarrow> (int_of_quotient (int n) 2,
                                say (Running_splits (int_of_quotient (int n) 2)) w)
                    | Some k \<Rightarrow> (k, w))"
  define kw2 where "kw2 = (if int n < fst kw1
                         then (int_of_quotient (int n) 2,
                               say (Warning_n_splits (int_of_quotient (int n) 2)) (snd kw1))
                         else kw1)"
  have h1: "heap (snd kw1) = heap w" by (simp add: kw1_def say_def split: option.splits)
  have h2: "heap (snd kw2) = heap w" using h1 by (simp add: kw2_def say_def)
  have "eval_models_CV (Some X) (Some y) ms cfg n_splits w
          = eval_models_CV_loop X y ms cfg (fst kw2) (snd kw2)" for ms :: "'m model list"
    by (simp add: eval_models_CV_def Let_def kw2_def kw1_def n_def split: option.splits prod.splits)
  then show ?thesis using h2 by blast
qed

lemma cv_reports:
  assumes X: "X < length (heap w)" and y: "y < length (heap w)"
    and m: "m \<in> set models" and d: "distinct (map model_name models)"
    and run: "eval_models_CV (Some X) (Some y) models cfg n_splits w = (Inr res, w')"
  shows "\<exists>r. res (model_name m) = Some r \<and> dom r = set (levels1 (heap w ! X))
           \<and> fst (eval_models_CV (Some X) (Some y) [m] cfg n_splits w)
               = Inr [model_name m \<mapsto> r]"
proof -
  obtain k v where hv: "heap v = heap w"
    and settled: "\<And>ms :: 'a model list. eval_models_CV (Some X) (Some y) ms cfg n_splits w
                = eval_models_CV_loop X y ms cfg k v"
    using eval_models_CV_settled [of w X y cfg n_splits] by metis
  define dti where "dti = levels0 (heap v ! X)"
  define cats where "cats = levels1 (heap v ! X)"
  define body :: "'a model \<Rightarrow> _" where "body = eval_model_CV cfg X y dti cats k"
  define rep where "rep = (\<lambda>m :: 'a model.
     case TimeSeriesSplit k of
        Inl e \<Rightarrow> Inl e
      | Inr tscv \<Rightarrow>
         (case tscv_split tscv (length dti) of
            Inl e \<Rightarrow> Inl e
          | Inr folds \<Rightarrow>
             (case fst (for_each (cv_fold cfg m X y dti) folds
                          (state m, initialize_metrics cats, 0)
                          (if verbose cfg then say (Model_banner (model_str m)) v else v)) of
                Inl e \<Rightarrow> Inl e
              | Inr acc \<Rightarrow> Inr (get_final_metrics (fst (snd acc))))))"
  have b: "fst (body m res w1) = (case rep m of Inl e \<Rightarrow> Inl e | Inr r \<Rightarrow> Inr (res(model_name m \<mapsto> r)))"
    if "same_inputs X y w1 v" for m res w1
  proof -
    have "same_inputs X y (if verbose cfg then say (Model_banner (model_str m)) w1 else w1)
            (if verbose cfg then say (Model_banner (model_str m)) v else v)"
      using that by (simp add: same_inputs_say)
    then have "fst (for_each (cv_fold cfg m X y dti) folds (state m, initialize_metrics cats, 0)
                  (if verbose cfg then say (Model_banner (model_str m)) w1 else w1))
             = fst (for_each (cv_fold cfg m X y dti) folds (state m, initialize_metrics cats, 0)
                  (if verbose cfg then say (Model_banner (model_str m)) v else v))" for folds
      by (rule cv_folds_same)
    note e = this
    show ?thesis
      unfolding body_def rep_def eval_model_CV_outcome e by (simp split: sum.splits)
  qed
  have kp: "keeps (length (heap w1)) w1 (snd (body m res w1))" for m res w1
    unfolding body_def using keeps_eval_model_CV [of "length (heap w1)" w1]
    by (metis order_refl prod.collapse)
  have loop: "for_each body models Map.empty v = (Inr res, w')"
    using run unfolding settled by (simp add: eval_models_CV_loop_def Let_def body_def cats_def dti_def)
  have sv: "same_inputs X y v v" using X y hv by (simp add: same_inputs_def)
  from models_loop_entries [of X y v body rep, OF b kp sv loop d] m
  obtain r where r: "rep m = Inr r" and e: "res (model_name m) = Some r" by blast
  have solo: "fst (eval_models_CV (Some X) (Some y) [m] cfg n_splits w) = Inr [model_name m \<mapsto> r]"
  proof -
    have "fst (eval_models_CV (Some X) (Some y) [m] cfg n_splits w)
            = fst (for_each body [m] Map.empty v)"
      unfolding settled by (simp only: eval_models_CV_loop_def Let_def body_def cats_def dti_def)
    also have "\<dots> = fst (body m Map.empty v)" by (rule for_each_single)
    also have "\<dots> = Inr [model_name m \<mapsto> r]" using b [OF sv, of m Map.empty] r by simp
    finally show ?thesis .
  qed
  obtain folds acc where a: "fst (for_each (cv_fold cfg m X y dti) folds
                          (state m, initialize_metrics cats, 0)
                          (if verbose cfg then say (Model_banner (model_str m)) v else v)) = Inr acc"
    and ra: "r = get_final_metrics (fst (snd acc))"
    using r unfolding rep_def by (auto split: sum.splits)
  obtain st metrics' counter where acc: "acc = (st, metrics', counter)" by (cases acc) auto
  have "dom metrics' = dom (initialize_metrics cats)"
    using a acc dom_cv_folds by (metis prod.collapse)
  then have "dom r = set (levels1 (heap w ! X))"
    by (simp add: ra acc dom_get_final_metrics dom_initialize_metrics cats_def hv)
  then show ?thesis using e solo by blast
qed

text \<open>
  C7.  Each model gets an accumulator of its own: \<^verbatim>\<open>metrics\<close> is assigned from
  \<^verbatim>\<open>_initialize_metrics(categories)\<close> at the top of the loop body (lines 52 and 132),
  before the split or the folds of that model, with the categories of the whole dataset
  (level 1 of \<open>X\<close>).  In a run over models of distinct names that returns, the report
  of every model is the report the same call gives for that model alone, so nothing
  counted for another model enters it, and it has an entry for every category of the
  dataset and for no other.
\<close>

theorem metrics_fresh_per_model:
  assumes "X < length (heap w)" and "y < length (heap w)"
    and "m \<in> set models" and "distinct (map model_name models)"
  shows "(\<forall>res w'. eval_models (Some X) (Some y) models cfg train_percent w = (Inr res, w') \<longrightarrow>
            (\<exists>r. res (model_name m) = Some r \<and> dom r = set (levels1 (heap w ! X))
               \<and> fst (eval_models (Some X) (Some y) [m] cfg train_percent w)
                   = Inr [model_name m \<mapsto> r]))
       \<and> (\<forall>res w'. eval_models_CV (Some X) (Some y) models cfg n_splits w = (Inr res, w') \<longrightarrow>
            (\<exists>r. res (model_name m) = Some r \<and> dom r = set (levels1 (heap w ! X))
               \<and> fst (eval_models_CV (Some X) (Some y) [m] cfg n_splits w)
                   = Inr [model_name m \<mapsto> r]))"
  using single_split_reports [OF assms] cv_reports [OF assms] by blast

lemma pair_projr: "\<not> isl (fst p) \<Longrightarrow> p = (Inr (projr (fst p)), snd p)"
  by (cases p) (simp add: inr_projr)

theorem metrics_fresh_per_model_witness:
  "(\<exists>r. projr (fst (eval_models (Some 0) (Some 1) [demo_model, quiet_model] demo_config 70
                      demo_world)) ''quiet'' = Some r
        \<and> dom r = {7, 8}
        \<and> fst (eval_models (Some 0) (Some 1) [quiet_model] demo_config 70 demo_world)
            = Inr [''quiet'' \<mapsto> r])
   \<and> (\<exists>r. projr (fst (eval_models_CV (Some 0) (Some 1) [demo_model, quiet_model] demo_config None
                         demo_world)) ''quiet'' = Some r
        \<and> dom r = {7, 8}
        \<and> fst (eval_models_CV (Some 0) (Some 1) [quiet_model] demo_config None demo_world)
            = Inr [''quiet'' \<mapsto> r])
   \<and> map_option support_samples
        (the (projr (fst (eval_models (Some 0) (Some 1) [demo_model, quiet_model] demo_config 70
                            demo_world)) ''threshold'') 7) = Some 2
   \<and> map_option support_samples
        (the (projr (fst (eval_models (Some 0) (Some 1) [demo_model, quiet_model] demo_config 70
                            demo_world)) ''quiet'') 7) = Some 2"
proof -
  let ?E = "eval_models (Some 0) (Some 1) [demo_model, quiet_model] demo_config 70 demo_world"
  let ?C = "eval_models_CV (Some 0) (Some 1) [demo_model, quiet_model] demo_config None demo_world"
  have X: "0 < length (heap demo_world)" and y: "1 < length (heap demo_world)"
    by (simp_all add: demo_world_def)
  have m: "quiet_model \<in> set [demo_model, quiet_model]" by simp
  have d: "distinct (map model_name [demo_model, quiet_model])"
    by (simp add: demo_model_def quiet_model_def)
  have n: "model_name quiet_model = ''quiet''" by (simp add: quiet_model_def)
  have cats: "set (levels1 (heap demo_world ! 0)) = {7, 8}"
    by (simp add: demo_world_def demo_X_def)
  have "\<not> isl (fst ?E)" by code_simp
  then have e: "?E = (Inr (projr (fst ?E)), snd ?E)" by (rule pair_projr)
  have "\<not> isl (fst ?C)" by code_simp
  then have c: "?C = (Inr (projr (fst ?C)), snd ?C)" by (rule pair_projr)
  note t = metrics_fresh_per_model [OF X y m d, of demo_config 70 None]
  have one: "\<exists>r. projr (fst ?E) ''quiet'' = Some r \<and> dom r = {7, 8}
        \<and> fst (eval_models (Some 0) (Some 1) [quiet_model] demo_config 70 demo_world)
            = Inr [''quiet'' \<mapsto> r]"
    using t e unfolding n cats by blast
  have two: "\<exists>r. projr (fst ?C) ''quiet'' = Some r \<and> dom r = {7, 8}
        \<and> fst (eval_models_CV (Some 0) (Some 1) [quiet_model] demo_config None demo_world)
            = Inr [''quiet'' \<mapsto> r]"
    using t c unfolding n cats by blast
  have three: "map_option support_samples (the (projr (fst ?E) ''threshold'') 7) = Some 2
     \<and> map_option support_samples (the (projr (fst ?E) ''quiet'') 7) = Some 2"
    by code_simp
  show ?thesis using one two three by blast
qed

section \<open>The joined table\<close>

lemma merge_row_keys: "x \<in> set (merge_row rrows width l) \<Longrightarrow> fst x = fst l"
  by (auto simp: merge_row_def split: list.splits)

lemma merge_row_nonempty: "merge_row rrows width l \<noteq> []"
  by (simp add: merge_row_def split: list.splits)

lemma merge_row_unmatched:
  "fst l \<notin> fst ` set rrows \<Longrightarrow> merge_row rrows width l = [(fst l, snd l @ replicate width None)]"
proof -
  assume "fst l \<notin> fst ` set rrows"
  then have "filter (\<lambda>r. fst r = fst l) rrows = []"
    unfolding filter_empty_conv by (metis imageI)
  then show ?thesis by (simp add: merge_row_def)
qed

lemma merge_row_cells:
  "x \<in> set (merge_row rrows width l) \<Longrightarrow> \<exists>cs. snd x = snd l @ cs"
  by (auto simp: merge_row_def split: list.splits)

lemma merged_keys:
  "fst ` set (concat (map (merge_row rrows width) lrows)) = fst ` set lrows"
proof (intro equalityI subsetI)
  fix k assume "k \<in> fst ` set (concat (map (merge_row rrows width) lrows))"
  then obtain x l where "l \<in> set lrows" and "x \<in> set (merge_row rrows width l)" and "k = fst x"
    by auto
  then show "k \<in> fst ` set lrows" using merge_row_keys by fastforce
next
  fix k assume "k \<in> fst ` set lrows"
  then obtain l where l: "l \<in> set lrows" and k: "k = fst l" by auto
  obtain x where x: "x \<in> set (merge_row rrows width l)"
    using merge_row_nonempty [of rrows width l] by (cases "merge_row rrows width l") auto
  then have "fst x = k" using k merge_row_keys by fastforce
  then show "k \<in> fst ` set (concat (map (merge_row rrows width) lrows))"
    using l x by force
qed

lemma merge_left_result:
  assumes "merge_left left right = Inr m"
  shows "\<exists>kl kr. resolve_keys left = Inr kl \<and> resolve_keys right = Inr kr
           \<and> index_names m = [''date'', ''category'']
           \<and> columns m = suffixed (columns left) ''_x'' (columns right)
                           @ suffixed (columns right) ''_y'' (columns left)
           \<and> rows m = concat (map (merge_row (map (\<lambda>r. (kr (fst r), snd r)) (rows right))
                                     (length (columns right)))
                                   (map (\<lambda>r. (kl (fst r), snd r)) (rows left)))"
  using assms
  by (auto simp: merge_left_def remove_unused_levels_def split: sum.splits)

lemma suffixed_disjoint: "set cs \<inter> set others = {} \<Longrightarrow> suffixed cs sfx others = cs"
  by (induction cs) (auto simp: suffixed_def)

lemma resolve_keys_plain: "index_names f = [''date'', ''category''] \<Longrightarrow> resolve_keys f = Inr (\<lambda>k. k)"
  by (simp add: resolve_keys_def level_number_def key_part_def)

lemma index_of_append_right:
  "x \<notin> set xs \<Longrightarrow> index_of x (xs @ ys) = length xs + index_of x ys"
  by (induction xs) auto

lemma index_of_less: "x \<in> set xs \<Longrightarrow> index_of x xs < length xs"
  by (induction xs) auto

lemma join_result:
  assumes j: "join_pred_to_dataset original_df prediction_df test_values_df label vc = Inr r"
    and disj1: "set (columns prediction_df) \<inter> set (columns original_df) = {}"
    and lp: "label \<notin> set (columns prediction_df)"
    and l3: "label \<noteq> ''prediction''"
    and tv1: "''prediction'' \<notin> set (columns test_values_df)"
    and tv2: "label \<notin> set (columns test_values_df)"
  shows "\<exists>kp ko kt. resolve_keys prediction_df = Inr kp \<and> resolve_keys original_df = Inr ko
           \<and> resolve_keys test_values_df = Inr kt
           \<and> label \<in> set (columns original_df)
           \<and> columns r = [''prediction'', label] @ columns test_values_df
           \<and> rows r = sort_key fst
                (map (\<lambda>x. (fst x, (snd x)[1 := fillna0 (snd x ! 1)]))
                  (concat (map (merge_row (map (\<lambda>r. (kt (fst r), snd r)) (rows test_values_df))
                                  (length (columns test_values_df)))
                     (map (\<lambda>z. (fst z,
                                 [snd z ! index_of ''prediction''
                                            (columns prediction_df @ columns original_df),
                                  snd z ! index_of label
                                            (columns prediction_df @ columns original_df)]))
                        (concat (map (merge_row (map (\<lambda>r. (ko (fst r), snd r)) (rows original_df))
                                        (length (columns original_df)))
                                   (map (\<lambda>r. (kp (fst r), snd r)) (rows prediction_df))))))))"
proof -
  from j obtain m1 results1 results2 results3 where
    m1: "merge_left prediction_df original_df = Inr m1"
    and s1: "select_columns m1 [''prediction'', label] = Inr results1"
    and m2: "merge_left results1 test_values_df = Inr results2"
    and f3: "fillna_column results2 label = Inr results3"
    and r: "r = sort_index results3"
    by (auto simp: join_pred_to_dataset_def split: sum.splits)
  from merge_left_result [OF m1] obtain kp ko where
    kp: "resolve_keys prediction_df = Inr kp" and ko: "resolve_keys original_df = Inr ko"
    and n1: "index_names m1 = [''date'', ''category'']"
    and c1: "columns m1 = columns prediction_df @ columns original_df"
    and r1: "rows m1 = concat (map (merge_row (map (\<lambda>r. (ko (fst r), snd r)) (rows original_df))
                                     (length (columns original_df)))
                                   (map (\<lambda>r. (kp (fst r), snd r)) (rows prediction_df)))"
    using disj1 by (auto simp: suffixed_disjoint Int_commute)
  have in1: "''prediction'' \<in> set (columns m1)" and in2: "label \<in> set (columns m1)"
    using s1 by (auto simp: select_columns_def split: if_splits)
  have lo: "label \<in> set (columns original_df)" using in2 c1 lp by simp
  have cs1: "columns results1 = [''prediction'', label]"
    and ns1: "index_names results1 = [''date'', ''category'']"
    and rs1: "rows results1 = map (\<lambda>z. (fst z, [snd z ! index_of ''prediction'' (columns m1),
                                                  snd z ! index_of label (columns m1)])) (rows m1)"
    using s1 n1 by (auto simp: select_columns_def cell_at_def split: if_splits)
  have d2: "set (columns results1) \<inter> set (columns test_values_df) = {}"
    using tv1 tv2 by (simp add: cs1)
  from merge_left_result [OF m2] obtain kl kt where
    kl: "resolve_keys results1 = Inr kl" and kt: "resolve_keys test_values_df = Inr kt"
    and c2: "columns results2 = [''prediction'', label] @ columns test_values_df"
    and r2: "rows results2 = concat (map (merge_row (map (\<lambda>r. (kt (fst r), snd r)) (rows test_values_df))
                                     (length (columns test_values_df)))
                                   (map (\<lambda>r. (kl (fst r), snd r)) (rows results1)))"
    using d2 by (auto simp: suffixed_disjoint Int_commute cs1)
  have "kl = (\<lambda>k. k)" using kl resolve_keys_plain [OF ns1] by simp
  then have r2': "rows results2 = concat (map (merge_row (map (\<lambda>r. (kt (fst r), snd r)) (rows test_values_df))
                                     (length (columns test_values_df))) (rows results1))"
    using r2 by simp
  have i: "index_of label (columns results2) = 1" using l3 by (simp add: c2)
  have c3: "columns results3 = columns results2"
    and r3: "rows results3 = map (\<lambda>x. (fst x, (snd x)[1 := fillna0 (snd x ! 1)])) (rows results2)"
    using f3 i by (auto simp: fillna_column_def cell_at_def split: if_splits)
  have "columns r = [''prediction'', label] @ columns test_values_df"
    by (simp add: r sort_index_def c3 c2)
  moreover have "rows r = sort_key fst (rows results3)" by (simp add: r sort_index_def)
  ultimately show ?thesis
    using kp ko kt lo unfolding r3 r2' rs1 r1 c1 by blast
qed

text \<open>
  C2.  The table \<^verbatim>\<open>_join_pred_to_dataset\<close> returns, for frames whose column names do not
  collide (the prediction frame and the label frame share no column name, the label
  column is not named \<^verbatim>\<open>prediction\<close>, the prediction frame has no label column, the
  value frame has neither) and a prediction frame with one cell per column in each row.
  With \<open>kp\<close>, \<open>ko\<close> and \<open>kt\<close> reading the (date, category) key of a row of the
  prediction, label and value frame: the keys of the table are the keys of the
  prediction frame, so every predicted key has a row also when no label exists for it;
  no label of the table is NaN, and the label is 0 at every key the label frame does
  not have; at a key the value frame does not have, every value column is NaN; the
  rows are sorted ascending by (date, category).
\<close>

theorem join_keeps_predicted_keys:
  assumes j: "join_pred_to_dataset original_df prediction_df test_values_df label vc = Inr r"
    and kp: "resolve_keys prediction_df = Inr kp"
    and ko: "resolve_keys original_df = Inr ko"
    and kt: "resolve_keys test_values_df = Inr kt"
    and disj1: "set (columns prediction_df) \<inter> set (columns original_df) = {}"
    and lp: "label \<notin> set (columns prediction_df)"
    and l3: "label \<noteq> ''prediction''"
    and tv1: "''prediction'' \<notin> set (columns test_values_df)"
    and tv2: "label \<notin> set (columns test_values_df)"
    and wf: "\<forall>p\<in>set (rows prediction_df). length (snd p) = length (columns prediction_df)"
  shows "fst ` set (rows r) = kp ` fst ` set (rows prediction_df)
       \<and> (\<forall>row\<in>set (rows r). cell_at r label (snd row) \<noteq> None)
       \<and> (\<forall>row\<in>set (rows r). fst row \<notin> ko ` fst ` set (rows original_df)
              \<longrightarrow> cell_at r label (snd row) = Some 0)
       \<and> (\<forall>row\<in>set (rows r). fst row \<notin> kt ` fst ` set (rows test_values_df)
              \<longrightarrow> (\<forall>c\<in>set (columns test_values_df). cell_at r c (snd row) = None))
       \<and> sorted (map fst (rows r))"
proof -
  define rowsP where "rowsP = map (\<lambda>r. (kp (fst r), snd r)) (rows prediction_df)"
  define rowsO where "rowsO = map (\<lambda>r. (ko (fst r), snd r)) (rows original_df)"
  define rowsT where "rowsT = map (\<lambda>r. (kt (fst r), snd r)) (rows test_values_df)"
  define no where "no = length (columns original_df)"
  define nt where "nt = length (columns test_values_df)"
  define cols1 where "cols1 = columns prediction_df @ columns original_df"
  define sel :: "key \<times> cell list \<Rightarrow> key \<times> cell list" where
    "sel = (\<lambda>z. (fst z, [snd z ! index_of ''prediction'' cols1, snd z ! index_of label cols1]))"
  define fill :: "key \<times> cell list \<Rightarrow> key \<times> cell list" where
    "fill = (\<lambda>x. (fst x, (snd x)[1 := fillna0 (snd x ! 1)]))"
  define M1 where "M1 = concat (map (merge_row rowsO no) rowsP)"
  define M2 where "M2 = concat (map (merge_row rowsT nt) (map sel M1))"
  from join_result [OF j disj1 lp l3 tv1 tv2] kp ko kt
  have lo: "label \<in> set (columns original_df)"
    and cr: "columns r = [''prediction'', label] @ columns test_values_df"
    and rr: "rows r = sort_key fst (map fill M2)"
    unfolding rowsP_def rowsO_def rowsT_def no_def nt_def cols1_def sel_def fill_def M1_def M2_def by auto
  have set_r: "set (rows r) = fill ` set M2" by (simp add: rr)
  have fst_fill: "fst (fill x) = fst x" for x by (simp add: fill_def)
  have fst_sel: "fst (sel z) = fst z" for z by (simp add: sel_def)
  have keys2: "fst ` set M2 = fst ` set (map sel M1)" unfolding M2_def by (rule merged_keys)
  have keys1: "fst ` set M1 = fst ` set rowsP" unfolding M1_def by (rule merged_keys)
  have "fst ` set (rows r) = fst ` set M2" by (simp add: set_r image_image fst_fill)
  also have "\<dots> = fst ` set M1" by (simp add: keys2 image_image fst_sel)
  also have "\<dots> = kp ` fst ` set (rows prediction_df)" by (simp add: keys1 rowsP_def image_image)
  finally have a: "fst ` set (rows r) = kp ` fst ` set (rows prediction_df)" .
  have trace: "\<exists>p z x. p \<in> set rowsP \<and> z \<in> set (merge_row rowsO no p) \<and> x \<in> set (merge_row rowsT nt (sel z))
                 \<and> row = fill x" if "row \<in> set (rows r)" for row
  proof -
    from that obtain x where x: "x \<in> set M2" and row: "row = fill x" unfolding set_r by blast
    from x obtain z where z: "z \<in> set M1" and xz: "x \<in> set (merge_row rowsT nt (sel z))"
      unfolding M2_def by auto
    from z obtain p where "p \<in> set rowsP" and "z \<in> set (merge_row rowsO no p)"
      unfolding M1_def by auto
    then show ?thesis using xz row by blast
  qed
  have il: "index_of label (columns r) = 1" using l3 by (simp add: cr)
  have two: "\<exists>cs. snd x = [snd z ! index_of ''prediction'' cols1, snd z ! index_of label cols1] @ cs"
    if "x \<in> set (merge_row rowsT nt (sel z))" for x z
    using merge_row_cells [OF that] by (simp add: sel_def)
  have b1: "cell_at r label (snd row) \<noteq> None" if "row \<in> set (rows r)" for row
  proof -
    from trace [OF that] obtain z x where x: "x \<in> set (merge_row rowsT nt (sel z))" and row: "row = fill x"
      by blast
    from two [OF x] obtain cs where "snd x = [snd z ! index_of ''prediction'' cols1, snd z ! index_of label cols1] @ cs"
      by blast
    then show ?thesis by (simp add: cell_at_def il row fill_def fillna0_def split: option.splits)
  qed
  have b2: "cell_at r label (snd row) = Some 0"
    if "row \<in> set (rows r)" and "fst row \<notin> ko ` fst ` set (rows original_df)" for row
  proof -
    from trace [OF that(1)] obtain p z x where p: "p \<in> set rowsP" and z: "z \<in> set (merge_row rowsO no p)"
      and x: "x \<in> set (merge_row rowsT nt (sel z))" and row: "row = fill x"
      by blast
    have "fst row = fst p"
      using merge_row_keys [OF x] merge_row_keys [OF z] by (simp add: row fst_fill fst_sel)
    then have "fst p \<notin> fst ` set rowsO" using that(2) by (simp add: rowsO_def image_image)
    then have zz: "z = (fst p, snd p @ replicate no None)"
      using z merge_row_unmatched [of p rowsO no] by simp
    have lenp: "length (snd p) = length (columns prediction_df)" using p wf by (auto simp: rowsP_def)
    have idx: "index_of label cols1 = length (columns prediction_df) + index_of label (columns original_df)"
      unfolding cols1_def using lp by (rule index_of_append_right)
    have "index_of label (columns original_df) < no" unfolding no_def using lo by (rule index_of_less)
    then have "snd z ! index_of label cols1 = None"
      by (simp add: zz idx nth_append lenp)
    moreover from two [OF x] obtain cs where
      "snd x = [snd z ! index_of ''prediction'' cols1, snd z ! index_of label cols1] @ cs"
      by blast
    ultimately show ?thesis by (simp add: cell_at_def il row fill_def fillna0_def)
  qed
  have c: "cell_at r c (snd row) = None"
    if "row \<in> set (rows r)" and "fst row \<notin> kt ` fst ` set (rows test_values_df)"
      and "c \<in> set (columns test_values_df)" for row c
  proof -
    from trace [OF that(1)] obtain z x where x: "x \<in> set (merge_row rowsT nt (sel z))" and row: "row = fill x"
      by blast
    have "fst row = fst (sel z)" using merge_row_keys [OF x] by (simp add: row fst_fill)
    then have "fst (sel z) \<notin> fst ` set rowsT" using that(2) by (simp add: rowsT_def image_image)
    then have xx: "x = (fst (sel z), snd (sel z) @ replicate nt None)"
      using x merge_row_unmatched [of "sel z" rowsT nt] by simp
    have cne: "c \<noteq> ''prediction''" "c \<noteq> label" using that(3) tv1 tv2 by auto
    have "index_of c (columns test_values_df) < nt" unfolding nt_def using that(3) by (rule index_of_less)
    then show ?thesis
      using cne by (simp add: cell_at_def cr row fill_def xx sel_def)
  qed
  have d: "sorted (map fst (rows r))" by (simp add: rr)
  show ?thesis using a b1 b2 c d by blast
qed

theorem join_keeps_predicted_keys_witness:
  "join_pred_to_dataset demo_y demo_pred demo_X ''label'' ''value'' = Inr demo_joined
   \<and> fst ` set (rows demo_joined) = fst ` set (rows demo_pred)
   \<and> (4, 7) \<notin> fst ` set (rows demo_y)
   \<and> cell_at demo_joined ''label'' (snd (rows demo_joined ! 0)) = Some 0
   \<and> (6, 7) \<notin> fst ` set (rows demo_X)
   \<and> cell_at demo_joined ''value'' (snd (rows demo_joined ! 3)) = None
   \<and> sorted (map fst (rows demo_joined))"
proof -
  have j: "join_pred_to_dataset demo_y demo_pred demo_X ''label'' ''value'' = Inr demo_joined"
    by code_simp
  have kp: "resolve_keys demo_pred = Inr (\<lambda>k. k)" by (simp add: resolve_keys_def level_number_def key_part_def demo_pred_def)
  have ko: "resolve_keys demo_y = Inr (\<lambda>k. k)" by (simp add: resolve_keys_def level_number_def key_part_def demo_y_def)
  have kt: "resolve_keys demo_X = Inr (\<lambda>k. k)" by (simp add: resolve_keys_def level_number_def key_part_def demo_X_def)
  have h1: "set (columns demo_pred) \<inter> set (columns demo_y) = {}"
    and h2: "''label'' \<notin> set (columns demo_pred)"
    and h3: "''label'' \<noteq> ''prediction''"
    and h4: "''prediction'' \<notin> set (columns demo_X)"
    and h5: "''label'' \<notin> set (columns demo_X)"
    and h6: "\<forall>p\<in>set (rows demo_pred). length (snd p) = length (columns demo_pred)"
    by (simp_all add: demo_pred_def demo_y_def demo_X_def)
  note t = join_keeps_predicted_keys [OF j kp ko kt h1 h2 h3 h4 h5 h6]
  have r0: "rows demo_joined ! 0 \<in> set (rows demo_joined)"
    and r3: "rows demo_joined ! 3 \<in> set (rows demo_joined)"
    and v: "''value'' \<in> set (columns demo_X)"
    by (simp_all add: demo_joined_def demo_X_def)
  have n0: "(4, 7) \<notin> fst ` set (rows demo_y)" by (simp add: demo_y_def)
  have n3: "(6, 7) \<notin> fst ` set (rows demo_X)" by (simp add: demo_X_def)
  have f0: "fst (rows demo_joined ! 0) = (4, 7)" and f3: "fst (rows demo_joined ! 3) = (6, 7)"
    by (simp_all add: demo_joined_def)
  have a: "fst ` set (rows demo_joined) = fst ` set (rows demo_pred)" using t by simp
  have b: "cell_at demo_joined ''label'' (snd (rows demo_joined ! 0)) = Some 0"
    using t r0 n0 f0 by simp
  have c: "cell_at demo_joined ''value'' (snd (rows demo_joined ! 3)) = None"
    using t r3 n3 f3 v by simp
  have d: "sorted (map fst (rows demo_joined))" using t by simp
  show ?thesis using j a n0 b n3 c d by simp
qed

section \<open>Names the join relies on\<close>

lemma suffixed_prediction:
  assumes "''prediction'' \<in> set (suffixed cs sfx others)" and "sfx = ''_x'' \<or> sfx = ''_y''"
  shows "''prediction'' \<in> set cs"
proof -
  from assms(1) obtain c where c: "c \<in> set cs"
    and e: "''prediction'' = (if c \<in> set others then c @ sfx else c)"
    by (auto simp: suffixed_def)
  have "''prediction'' \<noteq> c @ sfx"
  proof
    assume "''prediction'' = c @ sfx"
    then have "last ''prediction'' = last (c @ sfx)" by simp
    then show False using assms(2) by auto
  qed
  then show ?thesis using c e by (auto split: if_splits)
qed

lemma resolve_keys_needs_names:
  "\<not> {''date'', ''category''} \<subseteq> set (index_names f) \<Longrightarrow> isl (resolve_keys f)"
  by (auto simp: resolve_keys_def level_number_def split: sum.splits)

lemma merge_left_needs_names:
  "\<not> {''date'', ''category''} \<subseteq> set (index_names left)
   \<or> \<not> {''date'', ''category''} \<subseteq> set (index_names right) \<Longrightarrow> isl (merge_left left right)"
  using resolve_keys_needs_names [of left] resolve_keys_needs_names [of right]
  by (auto simp: merge_left_def split: sum.splits)

lemma join_needs_names:
  assumes "\<not> {''date'', ''category''} \<subseteq> set (index_names prediction_df)
         \<or> \<not> {''date'', ''category''} \<subseteq> set (index_names original_df)
         \<or> \<not> {''date'', ''category''} \<subseteq> set (index_names test_values_df)"
  shows "isl (join_pred_to_dataset original_df prediction_df test_values_df label vc)"
proof (rule ccontr)
  assume "\<not> isl (join_pred_to_dataset original_df prediction_df test_values_df label vc)"
  then obtain m1 results1 results2 where
    m1: "merge_left prediction_df original_df = Inr m1"
    and m2: "merge_left results1 test_values_df = Inr results2"
    by (auto simp: join_pred_to_dataset_def split: sum.splits)
  have "\<not> isl (merge_left prediction_df original_df)" using m1 by simp
  moreover have "\<not> isl (merge_left results1 test_values_df)" using m2 by simp
  ultimately show False using assms merge_left_needs_names by blast
qed

lemma join_needs_prediction_column:
  assumes "''prediction'' \<notin> set (columns original_df)"
    and "''prediction'' \<notin> set (columns prediction_df)"
  shows "isl (join_pred_to_dataset original_df prediction_df test_values_df label vc)"
proof (rule ccontr)
  assume "\<not> isl (join_pred_to_dataset original_df prediction_df test_values_df label vc)"
  then obtain m1 results1 where
    m1: "merge_left prediction_df original_df = Inr m1"
    and s1: "select_columns m1 [''prediction'', label] = Inr results1"
    by (auto simp: join_pred_to_dataset_def split: sum.splits)
  have "''prediction'' \<in> set (columns m1)"
    using s1 by (auto simp: select_columns_def split: if_splits)
  then have "''prediction'' \<in> set (suffixed (columns prediction_df) ''_x'' (columns original_df))
           \<or> ''prediction'' \<in> set (suffixed (columns original_df) ''_y'' (columns prediction_df))"
    using merge_left_result [OF m1] by auto
  then show False using assms suffixed_prediction by blast
qed

lemma evaluation_raises_with_join:
  "isl (join_pred_to_dataset labels_df prediction_df test_values_df label vc)
   \<Longrightarrow> isl (get_evaluation_metrics test_values_df prediction_df labels_df metrics vc label pc w)"
  by (auto simp: get_evaluation_metrics_def Let_def split: sum.splits)

lemma index_of_append_left: "x \<in> set xs \<Longrightarrow> index_of x (xs @ ys) = index_of x xs"
  by (induction xs) auto

lemma join_prediction_cells:
  assumes j: "join_pred_to_dataset original_df prediction_df test_values_df label vc = Inr r"
    and kp: "resolve_keys prediction_df = Inr kp"
    and pp: "''prediction'' \<in> set (columns prediction_df)"
    and disj1: "set (columns prediction_df) \<inter> set (columns original_df) = {}"
    and lp: "label \<notin> set (columns prediction_df)"
    and l3: "label \<noteq> ''prediction''"
    and tv1: "''prediction'' \<notin> set (columns test_values_df)"
    and tv2: "label \<notin> set (columns test_values_df)"
    and wf: "\<forall>p\<in>set (rows prediction_df). length (snd p) = length (columns prediction_df)"
    and row: "row \<in> set (rows r)"
  shows "\<exists>p\<in>set (rows prediction_df). fst row = kp (fst p)
           \<and> cell_at r ''prediction'' (snd row) = cell_at prediction_df ''prediction'' (snd p)"
proof -
  define cols1 where "cols1 = columns prediction_df @ columns original_df"
  define sel :: "key \<times> cell list \<Rightarrow> key \<times> cell list" where
    "sel = (\<lambda>z. (fst z, [snd z ! index_of ''prediction'' cols1, snd z ! index_of label cols1]))"
  from join_result [OF j disj1 lp l3 tv1 tv2] kp obtain rowsO rowsT no nt where
    cr: "columns r = [''prediction'', label] @ columns test_values_df"
    and rr: "rows r = sort_key fst (map (\<lambda>x. (fst x, (snd x)[1 := fillna0 (snd x ! 1)]))
               (concat (map (merge_row rowsT nt) (map sel
                  (concat (map (merge_row rowsO no)
                     (map (\<lambda>r. (kp (fst r), snd r)) (rows prediction_df))))))))"
    unfolding cols1_def sel_def by auto
  define M1 where "M1 = concat (map (merge_row rowsO no)
                     (map (\<lambda>r. (kp (fst r), snd r)) (rows prediction_df)))"
  define M2 where "M2 = concat (map (merge_row rowsT nt) (map sel M1))"
  have "set (rows r) = (\<lambda>x. (fst x, (snd x)[1 := fillna0 (snd x ! 1)])) ` set M2"
    unfolding rr M2_def M1_def by simp
  then obtain x where x: "x \<in> set M2"
    and rx: "row = (fst x, (snd x)[1 := fillna0 (snd x ! 1)])"
    using row by blast
  from x obtain z where z: "z \<in> set M1"
    and xz: "x \<in> set (merge_row rowsT nt (sel z))"
    unfolding M2_def by auto
  from z obtain p where p: "p \<in> set (rows prediction_df)"
    and zp: "z \<in> set (merge_row rowsO no (kp (fst p), snd p))"
    unfolding M1_def by auto
  have k: "fst row = kp (fst p)"
    using merge_row_keys [OF xz] merge_row_keys [OF zp] by (simp add: rx sel_def)
  obtain cs where cs: "snd z = snd p @ cs" using merge_row_cells [OF zp] by auto
  obtain ds where ds: "snd x = snd (sel z) @ ds" using merge_row_cells [OF xz] by auto
  have i: "index_of ''prediction'' cols1 = index_of ''prediction'' (columns prediction_df)"
    unfolding cols1_def using pp by (rule index_of_append_left)
  have "index_of ''prediction'' (columns prediction_df) < length (snd p)"
    using index_of_less [OF pp] wf p by simp
  then have "snd z ! index_of ''prediction'' cols1 = cell_at prediction_df ''prediction'' (snd p)"
    by (simp add: i cs nth_append cell_at_def)
  then have "cell_at r ''prediction'' (snd row) = cell_at prediction_df ''prediction'' (snd p)"
    by (simp add: cell_at_def [of r] cr rx ds sel_def)
  then show ?thesis using p k by blast
qed

text \<open>
  C9.  \<^verbatim>\<open>_join_pred_to_dataset\<close> is not given \<open>prediction_col_name\<close>: it selects the
  column named \<^verbatim>\<open>prediction\<close> (line 240) and merges on the index levels named
  \<^verbatim>\<open>date\<close> and \<^verbatim>\<open>category\<close>.  For a label frame that has no column named
  \<^verbatim>\<open>prediction\<close>: when the prediction frame has no column of that name, or one of the
  three frames has no index level named \<^verbatim>\<open>date\<close> or none named \<^verbatim>\<open>category\<close>, the join
  raises, and so does \<^verbatim>\<open>get_evaluation_metrics\<close>, whatever \<open>prediction_col_name\<close> it is
  given.  When the join returns (column names not colliding, as for the joined table
  above), the column \<^verbatim>\<open>prediction\<close> of each row of the table is the cell that the
  column \<^verbatim>\<open>prediction\<close> of the prediction frame holds at that key.
\<close>

theorem join_needs_literal_names:
  assumes np: "''prediction'' \<notin> set (columns original_df)"
  shows "((''prediction'' \<notin> set (columns prediction_df)
           \<or> \<not> {''date'', ''category''} \<subseteq> set (index_names prediction_df)
           \<or> \<not> {''date'', ''category''} \<subseteq> set (index_names original_df)
           \<or> \<not> {''date'', ''category''} \<subseteq> set (index_names test_values_df))
          \<longrightarrow> isl (join_pred_to_dataset original_df prediction_df test_values_df label vc)
              \<and> isl (get_evaluation_metrics test_values_df prediction_df original_df metrics vc
                        label pc w))
       \<and> (\<forall>r kp. join_pred_to_dataset original_df prediction_df test_values_df label vc = Inr r
              \<longrightarrow> resolve_keys prediction_df = Inr kp
              \<longrightarrow> set (columns prediction_df) \<inter> set (columns original_df) = {}
              \<longrightarrow> label \<notin> set (columns prediction_df)
              \<longrightarrow> label \<noteq> ''prediction''
              \<longrightarrow> ''prediction'' \<notin> set (columns test_values_df)
              \<longrightarrow> label \<notin> set (columns test_values_df)
              \<longrightarrow> (\<forall>p\<in>set (rows prediction_df). length (snd p) = length (columns prediction_df))
              \<longrightarrow> (\<forall>row\<in>set (rows r). \<exists>p\<in>set (rows prediction_df). fst row = kp (fst p)
                     \<and> cell_at r ''prediction'' (snd row)
                         = cell_at prediction_df ''prediction'' (snd p)))"
proof -
  have raises: "isl (join_pred_to_dataset original_df prediction_df test_values_df label vc)"
    if "''prediction'' \<notin> set (columns prediction_df)
           \<or> \<not> {''date'', ''category''} \<subseteq> set (index_names prediction_df)
           \<or> \<not> {''date'', ''category''} \<subseteq> set (index_names original_df)
           \<or> \<not> {''date'', ''category''} \<subseteq> set (index_names test_values_df)"
    using that join_needs_prediction_column [OF np] join_needs_names by blast
  have pp: "''prediction'' \<in> set (columns prediction_df)"
    if "join_pred_to_dataset original_df prediction_df test_values_df label vc = Inr r" for r
    using that join_needs_prediction_column [OF np, of prediction_df test_values_df label vc]
    by auto
  have cells: "\<exists>p\<in>set (rows prediction_df). fst row = kp (fst p)
                     \<and> cell_at r ''prediction'' (snd row)
                         = cell_at prediction_df ''prediction'' (snd p)"
    if "join_pred_to_dataset original_df prediction_df test_values_df label vc = Inr r"
      and "resolve_keys prediction_df = Inr kp"
      and "set (columns prediction_df) \<inter> set (columns original_df) = {}"
      and "label \<notin> set (columns prediction_df)"
      and "label \<noteq> ''prediction''"
      and "''prediction'' \<notin> set (columns test_values_df)"
      and "label \<notin> set (columns test_values_df)"
      and "\<forall>p\<in>set (rows prediction_df). length (snd p) = length (columns prediction_df)"
      and "row \<in> set (rows r)" for r kp row
    using join_prediction_cells [OF that(1) that(2) pp [OF that(1)] that(3-9)] .
  have first: "isl (join_pred_to_dataset original_df prediction_df test_values_df label vc)
              \<and> isl (get_evaluation_metrics test_values_df prediction_df original_df metrics vc
                        label pc w)"
    if "''prediction'' \<notin> set (columns prediction_df)
           \<or> \<not> {''date'', ''category''} \<subseteq> set (index_names prediction_df)
           \<or> \<not> {''date'', ''category''} \<subseteq> set (index_names original_df)
           \<or> \<not> {''date'', ''category''} \<subseteq> set (index_names test_values_df)"
    using raises [OF that] evaluation_raises_with_join by blast
  show ?thesis
  proof (intro conjI impI allI ballI)
    assume "''prediction'' \<notin> set (columns prediction_df)
           \<or> \<not> {''date'', ''category''} \<subseteq> set (index_names prediction_df)
           \<or> \<not> {''date'', ''category''} \<subseteq> set (index_names original_df)
           \<or> \<not> {''date'', ''category''} \<subseteq> set (index_names test_values_df)"
    then show "isl (join_pred_to_dataset original_df prediction_df test_values_df label vc)"
      using first by blast
  next
    assume "''prediction'' \<notin> set (columns prediction_df)
           \<or> \<not> {''date'', ''category''} \<subseteq> set (index_names prediction_df)
           \<or> \<not> {''date'', ''category''} \<subseteq> set (index_names original_df)
           \<or> \<not> {''date'', ''category''} \<subseteq> set (index_names test_values_df)"
    then show "isl (get_evaluation_metrics test_values_df prediction_df original_df metrics vc
                        label pc w)"
      using first by blast
  next
    fix r kp row
    assume "join_pred_to_dataset original_df prediction_df test_values_df label vc = Inr r"
      and "resolve_keys prediction_df = Inr kp"
      and "set (columns prediction_df) \<inter> set (columns original_df) = {}"
      and "label \<notin> set (columns prediction_df)"
      and "label \<noteq> ''prediction''"
      and "''prediction'' \<notin> set (columns test_values_df)"
      and "label \<notin> set (columns test_values_df)"
      and "\<forall>p\<in>set (rows prediction_df). length (snd p) = length (columns prediction_df)"
      and "row \<in> set (rows r)"
    then show "\<exists>p\<in>set (rows prediction_df). fst row = kp (fst p)
                     \<and> cell_at r ''prediction'' (snd row)
                         = cell_at prediction_df ''prediction'' (snd p)"
      by (rule cells)
  qed
qed

theorem join_needs_literal_names_witness:
  "''prediction'' \<notin> set (columns demo_y)
   \<and> ''prediction'' \<notin> set (columns (demo_pred\<lparr>columns := [''anomaly'']\<rparr>))
   \<and> isl (join_pred_to_dataset demo_y (demo_pred\<lparr>columns := [''anomaly'']\<rparr>) demo_X ''label''
             ''value'')
   \<and> isl (get_evaluation_metrics demo_X (demo_pred\<lparr>columns := [''anomaly'']\<rparr>) demo_y
             (Some (initialize_metrics [7, 8])) ''value'' ''label'' ''anomaly'' 1)
   \<and> \<not> {''date'', ''category''} \<subseteq> set (index_names (demo_X\<lparr>index_names := [''time'', ''category'']\<rparr>))
   \<and> isl (join_pred_to_dataset demo_y demo_pred (demo_X\<lparr>index_names := [''time'', ''category'']\<rparr>)
             ''label'' ''value'')
   \<and> join_pred_to_dataset demo_y demo_pred demo_X ''label'' ''value'' = Inr demo_joined
   \<and> (\<exists>p\<in>set (rows demo_pred). fst (rows demo_joined ! 0) = fst p
         \<and> cell_at demo_joined ''prediction'' (snd (rows demo_joined ! 0))
             = cell_at demo_pred ''prediction'' (snd p))"
proof -
  have np: "''prediction'' \<notin> set (columns demo_y)" by (simp add: demo_y_def)
  have a: "''prediction'' \<notin> set (columns (demo_pred\<lparr>columns := [''anomaly'']\<rparr>))" by simp
  have b: "\<not> {''date'', ''category''} \<subseteq> set (index_names (demo_X\<lparr>index_names := [''time'', ''category'']\<rparr>))"
    by simp
  note raises = join_needs_literal_names [OF np, THEN conjunct1, rule_format]
  note cells = join_needs_literal_names [OF np, THEN conjunct2, rule_format]
  have one: "isl (join_pred_to_dataset demo_y (demo_pred\<lparr>columns := [''anomaly'']\<rparr>) demo_X ''label''
             ''value'')
   \<and> isl (get_evaluation_metrics demo_X (demo_pred\<lparr>columns := [''anomaly'']\<rparr>) demo_y
             (Some (initialize_metrics [7, 8])) ''value'' ''label'' ''anomaly'' 1)"
    by (rule raises [OF disjI1 [OF a]])
  have two: "isl (join_pred_to_dataset demo_y demo_pred (demo_X\<lparr>index_names := [''time'', ''category'']\<rparr>)
             ''label'' ''value'')"
    by (rule raises [OF disjI2 [OF disjI2 [OF disjI2 [OF b]]], THEN conjunct1])
  have j: "join_pred_to_dataset demo_y demo_pred demo_X ''label'' ''value'' = Inr demo_joined"
    by code_simp
  have kp: "resolve_keys demo_pred = Inr (\<lambda>k. k)" by (simp add: resolve_keys_def level_number_def key_part_def demo_pred_def)
  have h1: "set (columns demo_pred) \<inter> set (columns demo_y) = {}"
    and h2: "''label'' \<notin> set (columns demo_pred)"
    and h3: "''label'' \<noteq> ''prediction''"
    and h4: "''prediction'' \<notin> set (columns demo_X)"
    and h5: "''label'' \<notin> set (columns demo_X)"
    and h6: "\<forall>p\<in>set (rows demo_pred). length (snd p) = length (columns demo_pred)"
    and r0: "rows demo_joined ! 0 \<in> set (rows demo_joined)"
    by (simp_all add: demo_pred_def demo_y_def demo_X_def demo_joined_def)
  have three: "\<exists>p\<in>set (rows demo_pred). fst (rows demo_joined ! 0) = fst p
         \<and> cell_at demo_joined ''prediction'' (snd (rows demo_joined ! 0))
             = cell_at demo_pred ''prediction'' (snd p)"
    using cells [OF j kp h1 h2 h3 h4 h5 h6 [rule_format] r0] by simp
  from one have o1: "isl (join_pred_to_dataset demo_y (demo_pred\<lparr>columns := [''anomaly'']\<rparr>) demo_X
             ''label'' ''value'')"
    and o2: "isl (get_evaluation_metrics demo_X (demo_pred\<lparr>columns := [''anomaly'']\<rparr>) demo_y
             (Some (initialize_metrics [7, 8])) ''value'' ''label'' ''anomaly'' 1)"
    by (rule conjunct1, rule conjunct2)
  show ?thesis
    by (intro conjI) (rule np a o1 o2 b two j three)+
qed

section \<open>The window of the matcher\<close>

lemma closest_in: "closest a xs = Some q \<Longrightarrow> q \<in> set xs"
  by (induction xs arbitrary: q) (auto split: option.splits if_splits)

lemma filter_remove1_outside: "\<not> P p \<Longrightarrow> filter P (remove1 p ps) = filter P ps"
  by (induction ps) auto

lemma filter_only:
  assumes "distinct ps" and "p \<in> set ps" and "P p" and "\<forall>x\<in>set ps. x \<noteq> p \<longrightarrow> \<not> P x"
  shows "filter P ps = [p]"
  using assms
proof (induction ps)
  case Nil
  then show ?case by simp
next
  case (Cons x ps)
  show ?case
  proof (cases "x = p")
    case True
    then have "p \<notin> set ps" using Cons.prems(1) by simp
    then have "filter P ps = []" using Cons.prems(4) by (auto simp: filter_empty_conv)
    then show ?thesis using True Cons.prems(3) by simp
  next
    case False
    then show ?thesis using Cons by auto
  qed
qed

lemma unmatched_actual:
  "filter (in_window w a) ps = [] \<Longrightarrow>
   match_events w (as1 @ a # as2) ps
     = (case match_events w (as1 @ as2) ps of (tp, fn, rest) \<Rightarrow> (tp, Suc fn, rest))"
proof (induction as1 arbitrary: ps)
  case Nil
  then show ?case by simp
next
  case (Cons b as1)
  have rem: "filter (in_window w a) (remove1 q ps) = []" for q
    using Cons.prems by (auto simp: filter_empty_conv dest: notin_set_remove1)
  show ?case
    using Cons.IH [OF Cons.prems] Cons.IH [OF rem]
    by (simp split: option.splits prod.splits)
qed

lemma unmatched_prediction:
  "\<forall>a\<in>set as. \<not> in_window w a p \<Longrightarrow> p \<in> set ps \<Longrightarrow>
   (case match_events w as ps of (tp, fn, rest) \<Rightarrow> (tp, fn, length rest))
     = (case match_events w as (remove1 p ps) of (tp, fn, rest) \<Rightarrow> (tp, fn, Suc (length rest)))"
proof (induction as arbitrary: ps)
  case Nil
  then show ?case by (simp add: length_remove1) (cases ps; simp)
next
  case (Cons a as)
  have out: "\<not> in_window w a p" and rest: "\<forall>a\<in>set as. \<not> in_window w a p"
    using Cons.prems(1) by simp_all
  have same: "filter (in_window w a) (remove1 p ps) = filter (in_window w a) ps"
    using out by (rule filter_remove1_outside)
  show ?case
  proof (cases "closest a (filter (in_window w a) ps)")
    case None
    then show ?thesis
      using Cons.IH [OF rest Cons.prems(2)] by (simp add: same split: prod.splits)
  next
    case (Some q)
    have "q \<in> set (filter (in_window w a) ps)" using Some by (rule closest_in)
    then have "q \<noteq> p" using out by auto
    then have "p \<in> set (remove1 q ps)" using Cons.prems(2) by simp
    from Cons.IH [OF rest this] show ?thesis
      using Some by (simp add: same remove1_commute [of p q] split: prod.splits)
  qed
qed

lemma matched_pair:
  "filter (in_window w a) ps = [p] \<Longrightarrow> \<forall>b\<in>set as1. \<not> in_window w b p \<Longrightarrow>
   match_events w (as1 @ a # as2) ps
     = (case match_events w (as1 @ as2) (remove1 p ps) of (tp, fn, rest) \<Rightarrow> (Suc tp, fn, rest))"
proof (induction as1 arbitrary: ps)
  case Nil
  then show ?case by simp
next
  case (Cons b as1)
  have out: "\<not> in_window w b p" and rest: "\<forall>b\<in>set as1. \<not> in_window w b p"
    using Cons.prems(2) by simp_all
  have same: "filter (in_window w b) (remove1 p ps) = filter (in_window w b) ps"
    using out by (rule filter_remove1_outside)
  show ?case
  proof (cases "closest b (filter (in_window w b) ps)")
    case None
    then show ?thesis
      using Cons.IH [OF Cons.prems(1) rest] by (simp add: same split: prod.splits)
  next
    case (Some q)
    have q: "q \<in> set (filter (in_window w b) ps)" using Some by (rule closest_in)
    then have qp: "q \<noteq> p" using out by auto
    have "\<not> in_window w a q"
    proof
      assume "in_window w a q"
      then have "q \<in> set (filter (in_window w a) ps)" using q by simp
      then show False using Cons.prems(1) qp by simp
    qed
    then have "filter (in_window w a) (remove1 q ps) = [p]"
      using Cons.prems(1) by (simp add: filter_remove1_outside)
    from Cons.IH [OF this rest] show ?thesis
      using Some by (simp add: same remove1_commute [of p q] split: prod.splits)
  qed
qed

lemma set_event_positions: "set (event_positions xs) = {k. k < length xs \<and> is_event (xs ! k)}"
  by (auto simp: event_positions_def)

lemma distinct_event_positions: "distinct (event_positions xs)"
  by (simp add: event_positions_def)

lemma event_positions_cleared:
  "event_positions (xs[i := Some 0]) = remove1 i (event_positions xs)"
proof -
  have "event_positions (xs[i := Some 0])
          = filter (\<lambda>k. is_event ((xs[i := Some 0]) ! k)) [0..<length xs]"
    by (simp add: event_positions_def)
  also have "\<dots> = filter (\<lambda>k. k \<noteq> i \<and> is_event (xs ! k)) [0..<length xs]"
  proof (intro filter_cong refl)
    fix k assume "k \<in> set [0..<length xs]"
    then have "k < length xs" by simp
    then show "is_event (xs[i := Some 0] ! k) = (k \<noteq> i \<and> is_event (xs ! k))"
      by (cases "k = i") (simp_all add: is_event_def)
  qed
  also have "\<dots> = filter (\<lambda>k. k \<noteq> i) (event_positions xs)"
    by (simp add: event_positions_def conj_commute)
  also have "\<dots> = removeAll i (event_positions xs)"
    by (simp add: removeAll_filter_not_eq eq_commute)
  also have "\<dots> = remove1 i (event_positions xs)"
    using distinct_event_positions by (simp add: distinct_remove1_removeAll)
  finally show ?thesis .
qed

text \<open>
  C1, as amended.  The counts the matcher adds for one category (\<open>shift_counts\<close>, the increments of
  \<^verbatim>\<open>get_metrics_with_shift\<close>), for a predicted event at position \<open>i\<close> and a true event
  at position \<open>j\<close> with no other event in range: every other predicted event is more
  than \<open>window_size\<close> positions from \<open>j\<close>, and every other true event more than
  \<open>window_size\<close> positions from \<open>i\<close>.  When \<open>i\<close> and \<open>j\<close> are at most \<open>window_size\<close>
  apart, the two are paired: the counts are those of the sequences without the two
  events, with one more TP.  When they are more than \<open>window_size\<close> apart, they are not
  paired: the counts are those of the sequences without the two events, with one more
  FP and one more FN.
\<close>

theorem window_tolerance:
  assumes i: "i < length predicted" and ei: "is_event (predicted ! i)"
    and j: "j < length actual" and ej: "is_event (actual ! j)"
    and alone_p: "\<forall>i'<length predicted. i' \<noteq> i \<and> is_event (predicted ! i') \<longrightarrow> w < distance j i'"
    and alone_a: "\<forall>j'<length actual. j' \<noteq> j \<and> is_event (actual ! j') \<longrightarrow> w < distance j' i"
  shows "(distance j i \<le> w \<longrightarrow>
            shift_counts w predicted actual
              = (case shift_counts w (predicted[i := Some 0]) (actual[j := Some 0]) of
                   (tp, fp, fn) \<Rightarrow> (Suc tp, fp, fn)))
       \<and> (w < distance j i \<longrightarrow>
            shift_counts w predicted actual
              = (case shift_counts w (predicted[i := Some 0]) (actual[j := Some 0]) of
                   (tp, fp, fn) \<Rightarrow> (tp, Suc fp, Suc fn)))"
proof -
  define Ps where "Ps = event_positions predicted"
  define As where "As = event_positions actual"
  have iP: "i \<in> set Ps" using i ei by (simp add: Ps_def set_event_positions)
  have jA: "j \<in> set As" using j ej by (simp add: As_def set_event_positions)
  have dP: "distinct Ps" and dA: "distinct As"
    by (simp_all add: Ps_def As_def distinct_event_positions)
  obtain as1 as2 where split: "As = as1 @ j # as2" using jA by (auto dest: split_list)
  have j1: "j \<notin> set as1" and j2: "j \<notin> set as2" using dA split by auto
  have rest: "remove1 j As = as1 @ as2" using j1 by (simp add: split remove1_append)
  have others_p: "\<forall>x\<in>set Ps. x \<noteq> i \<longrightarrow> \<not> in_window w j x"
    using alone_p by (auto simp: Ps_def set_event_positions in_window_def)
  have others_a: "\<forall>b\<in>set (as1 @ as2). \<not> in_window w b i"
  proof
    fix b assume b: "b \<in> set (as1 @ as2)"
    then have "b \<in> set As" and "b \<noteq> j" using split j1 j2 by auto
    then show "\<not> in_window w b i"
      using alone_a by (auto simp: As_def set_event_positions in_window_def)
  qed
  have cleared: "shift_counts w (predicted[i := Some 0]) (actual[j := Some 0])
      = (case match_events w (as1 @ as2) (remove1 i Ps) of (tp, fn, r) \<Rightarrow> (tp, length r, fn))"
    by (simp add: shift_counts_def event_positions_cleared flip: Ps_def As_def rest)
  have whole: "shift_counts w predicted actual
      = (case match_events w (as1 @ j # as2) Ps of (tp, fn, r) \<Rightarrow> (tp, length r, fn))"
    by (simp add: shift_counts_def flip: Ps_def As_def split)
  have near: "shift_counts w predicted actual
              = (case shift_counts w (predicted[i := Some 0]) (actual[j := Some 0]) of
                   (tp, fp, fn) \<Rightarrow> (Suc tp, fp, fn))" if "distance j i \<le> w"
  proof -
    have "filter (in_window w j) Ps = [i]"
      using dP iP that others_p by (intro filter_only) (simp_all add: in_window_def)
    moreover have "\<forall>b\<in>set as1. \<not> in_window w b i" using others_a by simp
    ultimately have "match_events w (as1 @ j # as2) Ps
        = (case match_events w (as1 @ as2) (remove1 i Ps) of (tp, fn, r) \<Rightarrow> (Suc tp, fn, r))"
      by (rule matched_pair)
    then show ?thesis unfolding whole cleared by (simp split: prod.splits)
  qed
  have far: "shift_counts w predicted actual
              = (case shift_counts w (predicted[i := Some 0]) (actual[j := Some 0]) of
                   (tp, fp, fn) \<Rightarrow> (tp, Suc fp, Suc fn))" if "w < distance j i"
  proof -
    have "\<forall>x\<in>set Ps. \<not> in_window w j x"
      using others_p that by (auto simp: in_window_def)
    then have "filter (in_window w j) Ps = []" by (simp add: filter_empty_conv)
    then have m1: "match_events w (as1 @ j # as2) Ps
        = (case match_events w (as1 @ as2) Ps of (tp, fn, r) \<Rightarrow> (tp, Suc fn, r))"
      by (rule unmatched_actual)
    have m2: "(case match_events w (as1 @ as2) Ps of (tp, fn, r) \<Rightarrow> (tp, fn, length r))
        = (case match_events w (as1 @ as2) (remove1 i Ps) of (tp, fn, r) \<Rightarrow> (tp, fn, Suc (length r)))"
      using others_a iP by (rule unmatched_prediction)
    show ?thesis unfolding whole cleared m1 using m2 by (simp split: prod.splits)
  qed
  show ?thesis using near far by blast
qed

lemma bounded_all: "(\<forall>k<n. P k) = (\<forall>k\<in>set [0..<n]. P k)"
  by auto

theorem window_tolerance_witness:
  "distance 3 2 \<le> 1
   \<and> shift_counts 1 (events_at [2, 8]) (events_at [3]) = (1, 1, 0)
   \<and> shift_counts 1 ((events_at [2, 8])[2 := Some 0]) ((events_at [3])[3 := Some 0]) = (0, 1, 0)
   \<and> 1 < distance 5 2
   \<and> shift_counts 1 (events_at [2, 8]) (events_at [5]) = (0, 2, 1)
   \<and> shift_counts 1 ((events_at [2, 8])[2 := Some 0]) ((events_at [5])[5 := Some 0]) = (0, 1, 0)"
proof -
  have i: "2 < length (events_at [2, 8])" and ei: "is_event (events_at [2, 8] ! 2)"
    by (simp_all add: events_at_def is_event_def)
  have j: "3 < length (events_at [3])" and ej: "is_event (events_at [3] ! 3)"
    by (simp_all add: events_at_def is_event_def)
  have j': "5 < length (events_at [5])" and ej': "is_event (events_at [5] ! 5)"
    by (simp_all add: events_at_def is_event_def)
  have p3: "\<forall>i'<length (events_at [2, 8]). i' \<noteq> 2 \<and> is_event (events_at [2, 8] ! i') \<longrightarrow> 1 < distance 3 i'"
    unfolding bounded_all by code_simp
  have a3: "\<forall>j'<length (events_at [3]). j' \<noteq> 3 \<and> is_event (events_at [3] ! j') \<longrightarrow> 1 < distance j' 2"
    unfolding bounded_all by code_simp
  have p5: "\<forall>i'<length (events_at [2, 8]). i' \<noteq> 2 \<and> is_event (events_at [2, 8] ! i') \<longrightarrow> 1 < distance 5 i'"
    unfolding bounded_all by code_simp
  have a5: "\<forall>j'<length (events_at [5]). j' \<noteq> 5 \<and> is_event (events_at [5] ! j') \<longrightarrow> 1 < distance j' 2"
    unfolding bounded_all by code_simp
  have near: "distance 3 2 \<le> 1" and far: "1 < distance 5 2" by (simp_all add: distance_def)
  have c3: "shift_counts 1 ((events_at [2, 8])[2 := Some 0]) ((events_at [3])[3 := Some 0]) = (0, 1, 0)"
    by code_simp
  have c5: "shift_counts 1 ((events_at [2, 8])[2 := Some 0]) ((events_at [5])[5 := Some 0]) = (0, 1, 0)"
    by code_simp
  have r3: "shift_counts 1 (events_at [2, 8]) (events_at [3]) = (1, 1, 0)"
    using window_tolerance [OF i ei j ej p3 a3, THEN conjunct1, rule_format, OF near, unfolded c3]
    by simp
  have r5: "shift_counts 1 (events_at [2, 8]) (events_at [5]) = (0, 2, 1)"
    using window_tolerance [OF i ei j' ej' p5 a5, THEN conjunct2, rule_format, OF far, unfolded c5]
    by simp
  show ?thesis using near r3 c3 far r5 c5 by simp
qed

text \<open>
  Two events within \<open>window_size\<close> of each other need not be paired when another event
  is in range.  With predicted events at 1 and 3, true events at 2 and 4 and
  \<open>window_size = 1\<close>, the predicted event at 3 and the true event at 2 are one position
  apart, and they are not paired with each other: the true event at 2 takes the
  predicted event at 1, the earlier of two at the same distance, and the true event at 4
  takes the one at 3.  The counts are 2 TP, against 1 FP and 1 FN without the two
  events: the two do not add exactly one TP.
\<close>

theorem window_tolerance_needs_isolation:
  "is_event (events_at [1, 3] ! 3) \<and> is_event (events_at [2, 4] ! 2) \<and> distance 2 3 \<le> 1
   \<and> closest 2 (filter (in_window 1 2) (event_positions (events_at [1, 3]))) = Some 1
   \<and> shift_counts 1 (events_at [1, 3]) (events_at [2, 4]) = (2, 0, 0)
   \<and> shift_counts 1 ((events_at [1, 3])[3 := Some 0]) ((events_at [2, 4])[2 := Some 0]) = (0, 1, 1)
   \<and> shift_counts 1 (events_at [1, 3]) (events_at [2, 4])
       \<noteq> (case shift_counts 1 ((events_at [1, 3])[3 := Some 0]) ((events_at [2, 4])[2 := Some 0]) of
            (tp, fp, fn) \<Rightarrow> (Suc tp, fp, fn))"
  by code_simp


end
